(* ===== verification/Link_Prelude.thy ===== *)
theory Link_Prelude
  imports Main "HOL-Library.Word"
begin

text \<open>
  What every component of the development shares: the machine types of the Rust code, the
  values that stand for panics and error returns, the checked arithmetic of \<open>usize\<close>, slices
  with their range checks, the outcome of one turn of an event loop, and the sending half of
  a channel.

  \<^item> A Rust \<open>usize\<close> is a \<^typ>\<open>nat\<close> below \<open>2 ^ 64\<close>; where the code adds or subtracts, the
    overflow check of a debug build is written out (\<open>usize_add\<close>, \<open>usize_sub\<close>) and yields
    \<open>Panic\<close>.  \<open>u8\<close>, \<open>u32\<close>, \<open>u64\<close> are words.
  \<^item> A function that returns \<open>Result<T>\<close> or may panic returns \<open>'e fault + 'a\<close>; \<open>and_then\<close> is
    the \<open>?\<close> operator.
  \<^item> One turn of a \<open>loop { select! { .. } }\<close> returns \<open>Continue s\<close> or, where the code breaks out
    of the loop with an error, \<open>Break e s\<close>; the state is kept because the effects made before
    the break (packets already sent, bytes already taken) stay visible.
  \<^item> A channel's sender is what was sent so far and an environment function that answers,
    for the n-th message, whether the receiver is still alive.
\<close>

named_theorems flow_simps \<open>equations of the result, loop and channel combinators\<close>

section \<open>Machine types\<close>

type_synonym byte = "8 word"
type_synonym bytes = "8 word list"
type_synonym u32 = "32 word"
type_synonym u64 = "64 word"
type_synonym i64 = "64 word"
type_synonym usize = nat

abbreviation usize_bound :: nat where
  "usize_bound \<equiv> 18446744073709551616"

section \<open>Panics, errors and the question mark operator\<close>

datatype 'e fault = Panic | Err 'e

type_synonym ('e, 'a) res = "'e fault + 'a"

fun and_then :: "'e + 'a \<Rightarrow> ('a \<Rightarrow> 'e + 'b) \<Rightarrow> 'e + 'b" where
  "and_then (Inl e) f = Inl e"
| "and_then (Inr x) f = f x"

lemma and_then_cong [fundef_cong]:
  "m = m' \<Longrightarrow> (\<And>x. m' = Inr x \<Longrightarrow> f x = f' x) \<Longrightarrow> and_then m f = and_then m' f'"
  by (cases m') auto

lemma and_then_assoc: "and_then (and_then m f) g = and_then m (\<lambda>x. and_then (f x) g)"
  by (cases m) auto

lemma and_then_Inr_iff: "and_then m f = Inr y \<longleftrightarrow> (\<exists>x. m = Inr x \<and> f x = Inr y)"
  by (cases m) auto

lemma and_then_Inl_iff:
  "and_then m f = Inl e \<longleftrightarrow> m = Inl e \<or> (\<exists>x. m = Inr x \<and> f x = Inl e)"
  by (cases m) auto

fun map_err :: "('e \<Rightarrow> 'f) \<Rightarrow> ('e, 'a) res \<Rightarrow> ('f, 'a) res" where
  "map_err g (Inr x) = Inr x"
| "map_err g (Inl Panic) = Inl Panic"
| "map_err g (Inl (Err e)) = Inl (Err (g e))"

lemma map_err_Inr_iff [flow_simps]: "map_err g m = Inr x \<longleftrightarrow> m = Inr x"
  by (cases "(g, m)" rule: map_err.cases) auto

section \<open>Checked arithmetic and slices\<close>

definition usize_add :: "usize \<Rightarrow> usize \<Rightarrow> ('e, usize) res" where
  "usize_add a b = (if a + b < usize_bound then Inr (a + b) else Inl Panic)"

definition usize_sub :: "usize \<Rightarrow> usize \<Rightarrow> ('e, usize) res" where
  "usize_sub a b = (if b \<le> a then Inr (a - b) else Inl Panic)"

lemma usize_sub_le [flow_simps, simp]: "b \<le> a \<Longrightarrow> usize_sub a b = Inr (a - b)"
  by (simp add: usize_sub_def)

lemma usize_add_small [flow_simps, simp]: "a + b < usize_bound \<Longrightarrow> usize_add a b = Inr (a + b)"
  by (simp add: usize_add_def)

text \<open>\<open>&xs[i..j]\<close> and \<open>&xs[i..]\<close>; out of range is a panic.\<close>

definition slice :: "'a list \<Rightarrow> usize \<Rightarrow> usize \<Rightarrow> ('e, 'a list) res" where
  "slice xs i j = (if i \<le> j \<and> j \<le> length xs then Inr (take (j - i) (drop i xs)) else Inl Panic)"

definition slice_from :: "'a list \<Rightarrow> usize \<Rightarrow> ('e, 'a list) res" where
  "slice_from xs i = (if i \<le> length xs then Inr (drop i xs) else Inl Panic)"

lemma slice_ok [flow_simps, simp]:
  "i \<le> j \<Longrightarrow> j \<le> length xs \<Longrightarrow> slice xs i j = Inr (take (j - i) (drop i xs))"
  by (simp add: slice_def)

lemma slice_from_ok [flow_simps, simp]: "i \<le> length xs \<Longrightarrow> slice_from xs i = Inr (drop i xs)"
  by (simp add: slice_from_def)

section \<open>Event loops\<close>

datatype ('e, 's) ctl = Continue 's | Break 'e 's

fun ctl_state :: "('e, 's) ctl \<Rightarrow> 's" where
  "ctl_state (Continue s) = s"
| "ctl_state (Break e s) = s"

fun ctl_then :: "('e, 's) ctl \<Rightarrow> ('s \<Rightarrow> ('e, 's) ctl) \<Rightarrow> ('e, 's) ctl" where
  "ctl_then (Continue s) f = f s"
| "ctl_then (Break e s) f = Break e s"

lemma ctl_then_assoc: "ctl_then (ctl_then m f) g = ctl_then m (\<lambda>s. ctl_then (f s) g)"
  by (cases m) auto

lemma ctl_then_Continue_iff [flow_simps]:
  "ctl_then m f = Continue t \<longleftrightarrow> (\<exists>s. m = Continue s \<and> f s = Continue t)"
  by (cases m) auto

text \<open>A loop that takes one event per turn, until it breaks or has no event left.\<close>

fun run_loop :: "('ev \<Rightarrow> 's \<Rightarrow> ('e, 's) ctl) \<Rightarrow> 'ev list \<Rightarrow> 's \<Rightarrow> ('e, 's) ctl" where
  "run_loop step [] s = Continue s"
| "run_loop step (ev # evs) s = ctl_then (step ev s) (run_loop step evs)"

lemma run_loop_append:
  "run_loop step (xs @ ys) s = ctl_then (run_loop step xs s) (run_loop step ys)"
proof (induction xs arbitrary: s)
  case (Cons x xs)
  then show ?case by (cases "step x s") auto
qed simp

lemma run_loop_Continue_invariant:
  assumes step: "\<And>ev s s'. I s \<Longrightarrow> step ev s = Continue s' \<Longrightarrow> I s'"
    and run: "run_loop step evs s = Continue t" and start: "I s"
  shows "I t"
  using run start
proof (induction evs arbitrary: s)
  case Nil
  then show ?case by simp
next
  case (Cons ev evs)
  then obtain s' where "step ev s = Continue s'" and "run_loop step evs s' = Continue t"
    by (auto simp: flow_simps)
  with Cons step show ?case by blast
qed

section \<open>The sending half of a channel\<close>

record 'a chan =
  ch_sent :: "'a list"
  ch_open :: "nat \<Rightarrow> bool"

definition chan_send :: "'a \<Rightarrow> 'a chan \<Rightarrow> 'a chan option" where
  "chan_send x c =
     (if ch_open c (length (ch_sent c)) then Some (c\<lparr>ch_sent := ch_sent c @ [x]\<rparr>) else None)"

definition chan_live :: "'a chan \<Rightarrow> bool" where
  "chan_live c \<longleftrightarrow> (\<forall>n. ch_open c n)"

lemma chan_send_live [flow_simps]:
  "chan_live c \<Longrightarrow> chan_send x c = Some (c\<lparr>ch_sent := ch_sent c @ [x]\<rparr>)"
  by (simp add: chan_send_def chan_live_def)

lemma chan_live_update [flow_simps, simp]: "chan_live (c\<lparr>ch_sent := xs\<rparr>) = chan_live c"
  by (simp add: chan_live_def)

lemma chan_send_Some:
  "chan_send x c = Some c' \<Longrightarrow> ch_sent c' = ch_sent c @ [x] \<and> ch_open c' = ch_open c"
  by (auto simp: chan_send_def split: if_splits)

text \<open>A sender whose receiver never goes away.\<close>

definition live_chan :: "'a chan" where
  "live_chan = \<lparr>ch_sent = [], ch_open = \<lambda>_. True\<rparr>"

lemma live_chan_simps [simp]: "chan_live live_chan" "ch_sent live_chan = []"
  by (simp_all add: live_chan_def chan_live_def)

text \<open>Sending one message after the other, until the receiver is gone.\<close>

fun chan_send_all :: "'a list \<Rightarrow> 'a chan \<Rightarrow> bool \<times> 'a chan" where
  "chan_send_all [] c = (True, c)"
| "chan_send_all (x # xs) c =
     (case chan_send x c of None \<Rightarrow> (False, c) | Some c' \<Rightarrow> chan_send_all xs c')"

lemma chan_send_all_live [flow_simps]:
  "chan_live c \<Longrightarrow> chan_send_all xs c = (True, c\<lparr>ch_sent := ch_sent c @ xs\<rparr>)"
  by (induction xs arbitrary: c) (auto simp: flow_simps)

section \<open>Lists\<close>

lemma take_prefix_drop: "i \<le> j \<Longrightarrow> j \<le> length xs \<Longrightarrow> take i xs @ take (j - i) (drop i xs) = take j xs"
  by (metis add_diff_inverse_nat not_le take_add)

lemma window_write:
  assumes "i \<le> v" and "v \<le> length d"
  shows "take (v + length bs - i) (drop i (take v d @ bs @ rest)) = take (v - i) (drop i d) @ bs"
proof -
  have "length (take (v - i) (drop i d)) = v - i" using assms by simp
  moreover have "v + length bs - i = (v - i) + length bs" using assms by simp
  ultimately show ?thesis using assms by (simp add: drop_take)
qed

lemma concat_map_length: "length (concat (map f xs)) = sum_list (map (\<lambda>x. length (f x)) xs)"
  by (simp add: length_concat comp_def)

end
