(* ===== verification/Simple_Buf.thy ===== *)
theory Simple_Buf
  imports Link_Prelude
begin

text \<open>
  \<open>link/src/simple_buf.rs\<close>: the fixed-capacity byte buffer that the packet reader and the
  stream sender keep their unfinished bytes in.  The record has the struct's fields; each
  method is a function of the same name with the prefix \<open>sb_\<close>.  A method that indexes or
  subtracts returns a \<open>res\<close> with the panic written out; \<open>sb_inv\<close> is the invariant under which
  none of them panics.  \<open>sb_bytes\<close> abstracts the buffer to the queue of bytes it holds.
\<close>

section \<open>State and operations\<close>

record simple_buf =
  data_vec :: bytes
  capacity :: usize
  vacant_idx :: usize
  occupied_idx :: usize

datatype buf_error =
  VacantShort usize usize
| FreeBeyond usize usize usize

definition sb_new :: "usize \<Rightarrow> simple_buf" where
  "sb_new cap = \<lparr>data_vec = replicate cap 0, capacity = cap, vacant_idx = 0, occupied_idx = 0\<rparr>"

definition sb_len :: "simple_buf \<Rightarrow> (buf_error, usize) res" where
  "sb_len b = usize_sub (vacant_idx b) (occupied_idx b)"

definition sb_is_empty :: "simple_buf \<Rightarrow> (buf_error, bool) res" where
  "sb_is_empty b = and_then (sb_len b) (\<lambda>n. Inr (n = 0))"

definition sb_max_len :: "simple_buf \<Rightarrow> (buf_error, usize) res" where
  "sb_max_len b =
     and_then (usize_sub (vacant_idx b) (occupied_idx b)) (\<lambda>n. usize_sub (capacity b) n)"

definition sb_vacant_slice :: "simple_buf \<Rightarrow> (buf_error, bytes) res" where
  "sb_vacant_slice b = slice_from (data_vec b) (vacant_idx b)"

definition sb_occupied_slice :: "simple_buf \<Rightarrow> (buf_error, bytes) res" where
  "sb_occupied_slice b = slice (data_vec b) (occupied_idx b) (vacant_idx b)"

definition sb_push_slice :: "simple_buf \<Rightarrow> bytes \<Rightarrow> (buf_error, simple_buf) res" where
  "sb_push_slice b bs =
     and_then (sb_vacant_slice b) (\<lambda>vacant.
       let usable = length vacant in
       if usable < length bs then Inl (Err (VacantShort usable (length bs)))
       else and_then (usize_add (vacant_idx b) (length bs)) (\<lambda>end_idx.
         Inr (b\<lparr>data_vec := take (vacant_idx b) (data_vec b) @ bs @ drop end_idx (data_vec b),
               vacant_idx := end_idx\<rparr>)))"

definition sb_reuse :: "simple_buf \<Rightarrow> (buf_error, simple_buf) res" where
  "sb_reuse b =
     and_then (slice (data_vec b) (occupied_idx b) (vacant_idx b)) (\<lambda>src.
     and_then (usize_sub (vacant_idx b) (occupied_idx b)) (\<lambda>v.
       Inr (b\<lparr>data_vec := src @ drop (length src) (data_vec b),
             vacant_idx := v, occupied_idx := 0\<rparr>)))"

definition sb_reuse_if :: "simple_buf \<Rightarrow> (buf_error, bool \<times> simple_buf) res" where
  "sb_reuse_if b =
     (if vacant_idx b = capacity b then and_then (sb_reuse b) (\<lambda>b'. Inr (True, b'))
      else Inr (False, b))"

definition sb_free :: "simple_buf \<Rightarrow> usize \<Rightarrow> (buf_error, simple_buf) res" where
  "sb_free b consumed =
     and_then (usize_add (occupied_idx b) consumed) (\<lambda>new_occupied_idx.
       if new_occupied_idx > vacant_idx b
       then Inl (Err (FreeBeyond (occupied_idx b) new_occupied_idx (vacant_idx b)))
       else Inr (b\<lparr>occupied_idx := new_occupied_idx\<rparr>))"

lemmas sb_method_defs = sb_len_def sb_is_empty_def sb_max_len_def sb_vacant_slice_def
  sb_occupied_slice_def sb_push_slice_def sb_reuse_def sb_reuse_if_def sb_free_def

section \<open>Invariant and abstraction\<close>

definition sb_inv :: "simple_buf \<Rightarrow> bool" where
  "sb_inv b \<longleftrightarrow> occupied_idx b \<le> vacant_idx b \<and> vacant_idx b \<le> capacity b
     \<and> length (data_vec b) = capacity b \<and> capacity b < usize_bound"

definition sb_bytes :: "simple_buf \<Rightarrow> bytes" where
  "sb_bytes b = take (vacant_idx b - occupied_idx b) (drop (occupied_idx b) (data_vec b))"

definition sb_room :: "simple_buf \<Rightarrow> nat" where
  "sb_room b = capacity b - vacant_idx b"

lemma sb_invD:
  assumes "sb_inv b"
  shows "occupied_idx b \<le> vacant_idx b" "vacant_idx b \<le> capacity b"
    "length (data_vec b) = capacity b" "capacity b < usize_bound"
  using assms by (auto simp: sb_inv_def)

lemma length_sb_bytes: "sb_inv b \<Longrightarrow> length (sb_bytes b) = vacant_idx b - occupied_idx b"
  by (auto simp: sb_inv_def sb_bytes_def)

lemma sb_bytes_update:
  "sb_bytes (b\<lparr>data_vec := d, vacant_idx := v, occupied_idx := i\<rparr>) = take (v - i) (drop i d)"
  by (simp add: sb_bytes_def)

lemma sb_new_inv: "cap < usize_bound \<Longrightarrow> sb_inv (sb_new cap)"
  by (simp add: sb_inv_def sb_new_def)

lemma sb_new_simps [simp]:
  "sb_bytes (sb_new cap) = []" "capacity (sb_new cap) = cap" "sb_room (sb_new cap) = cap"
  by (simp_all add: sb_bytes_def sb_new_def sb_room_def)

named_theorems sb_specs \<open>what each buffer method returns under the invariant\<close>

lemma sb_len_spec [sb_specs]: "sb_inv b \<Longrightarrow> sb_len b = Inr (length (sb_bytes b))"
  by (simp add: sb_len_def length_sb_bytes sb_invD)

lemma sb_is_empty_spec [sb_specs]: "sb_inv b \<Longrightarrow> sb_is_empty b = Inr (sb_bytes b = [])"
  by (simp add: sb_is_empty_def sb_len_spec)

lemma sb_max_len_spec [sb_specs]:
  "sb_inv b \<Longrightarrow> sb_max_len b = Inr (capacity b - length (sb_bytes b))"
  using sb_invD[of b] by (simp add: sb_max_len_def length_sb_bytes)

lemma sb_occupied_slice_spec [sb_specs]: "sb_inv b \<Longrightarrow> sb_occupied_slice b = Inr (sb_bytes b)"
  by (simp add: sb_occupied_slice_def sb_bytes_def sb_invD)

lemma sb_vacant_slice_spec:
  "sb_inv b \<Longrightarrow> \<exists>v. sb_vacant_slice b = Inr v \<and> length v = sb_room b"
  by (simp add: sb_vacant_slice_def sb_room_def sb_invD)

lemma sb_push_slice_spec:
  assumes inv: "sb_inv b" and fits: "length bs \<le> sb_room b"
  obtains b' where "sb_push_slice b bs = Inr b'" "sb_inv b'" "sb_bytes b' = sb_bytes b @ bs"
    "capacity b' = capacity b" "vacant_idx b' = vacant_idx b + length bs"
    "occupied_idx b' = occupied_idx b"
proof
  let ?b = "b\<lparr>data_vec := take (vacant_idx b) (data_vec b) @ bs
                 @ drop (vacant_idx b + length bs) (data_vec b),
              vacant_idx := vacant_idx b + length bs\<rparr>"
  note facts = sb_invD[OF inv]
  show "sb_push_slice b bs = Inr ?b"
    using facts fits by (simp add: sb_push_slice_def sb_vacant_slice_def sb_room_def)
  show "sb_inv ?b" using facts fits by (simp add: sb_inv_def sb_room_def)
  show "sb_bytes ?b = sb_bytes b @ bs"
    using facts by (simp add: sb_bytes_def window_write drop_take)
qed simp_all

lemma sb_push_slice_full [sb_specs]:
  "sb_inv b \<Longrightarrow> sb_room b < length bs \<Longrightarrow>
     sb_push_slice b bs = Inl (Err (VacantShort (sb_room b) (length bs)))"
  by (simp add: sb_push_slice_def sb_vacant_slice_def sb_room_def sb_invD)

lemma sb_reuse_spec:
  assumes inv: "sb_inv b"
  obtains b' where "sb_reuse b = Inr b'" "sb_inv b'" "sb_bytes b' = sb_bytes b"
    "capacity b' = capacity b" "sb_room b' = capacity b - length (sb_bytes b)"
    "occupied_idx b' = 0"
proof
  let ?src = "sb_bytes b"
  let ?b = "b\<lparr>data_vec := ?src @ drop (length ?src) (data_vec b),
              vacant_idx := vacant_idx b - occupied_idx b, occupied_idx := 0\<rparr>"
  note facts = sb_invD[OF inv] length_sb_bytes[OF inv]
  show "sb_reuse b = Inr ?b"
    using facts by (simp add: sb_reuse_def sb_bytes_def)
  show "sb_inv ?b" using facts by (simp add: sb_inv_def)
  show "sb_bytes ?b = sb_bytes b" using facts by (simp add: sb_bytes_update)
  show "sb_room ?b = capacity b - length (sb_bytes b)" using facts by (simp add: sb_room_def)
qed simp_all

lemma sb_reuse_if_spec:
  assumes inv: "sb_inv b"
  obtains r b' where "sb_reuse_if b = Inr (r, b')" "sb_inv b'" "sb_bytes b' = sb_bytes b"
    "capacity b' = capacity b" "r \<longleftrightarrow> vacant_idx b = capacity b"
    "r \<Longrightarrow> sb_room b' = capacity b - length (sb_bytes b)" "\<not> r \<Longrightarrow> b' = b"
proof (cases "vacant_idx b = capacity b")
  case True
  obtain b' where "sb_reuse b = Inr b'" "sb_inv b'" "sb_bytes b' = sb_bytes b"
    "capacity b' = capacity b" "sb_room b' = capacity b - length (sb_bytes b)"
    using sb_reuse_spec[OF inv] by metis
  then show ?thesis using True that[of True b'] by (simp add: sb_reuse_if_def)
next
  case False
  then show ?thesis using inv that[of False b] by (simp add: sb_reuse_if_def)
qed

lemma sb_free_spec:
  assumes inv: "sb_inv b" and le: "n \<le> length (sb_bytes b)"
  obtains b' where "sb_free b n = Inr b'" "sb_inv b'" "sb_bytes b' = drop n (sb_bytes b)"
    "capacity b' = capacity b" "vacant_idx b' = vacant_idx b" "sb_room b' = sb_room b"
proof
  let ?b = "b\<lparr>occupied_idx := occupied_idx b + n\<rparr>"
  note facts = sb_invD[OF inv] length_sb_bytes[OF inv]
  show "sb_free b n = Inr ?b" using facts le by (simp add: sb_free_def)
  show "sb_inv ?b" using facts le by (simp add: sb_inv_def)
  show "sb_bytes ?b = drop n (sb_bytes b)"
    using facts le by (simp add: sb_bytes_def drop_take add.commute)
qed (simp_all add: sb_room_def)

lemma sb_free_beyond:
  assumes "sb_inv b" and "length (sb_bytes b) < n"
  shows "\<exists>e. sb_free b n = Inl e"
  using assms sb_invD[of b] length_sb_bytes[of b] by (auto simp: sb_free_def usize_add_def)

lemma sb_bytes_le_capacity: "sb_inv b \<Longrightarrow> length (sb_bytes b) + sb_room b \<le> capacity b"
  by (auto simp: length_sb_bytes sb_room_def sb_inv_def)

section \<open>The queue interface\<close>

text \<open>
  What the packet reader and the stream sender rely on: a bounded queue of bytes with a
  compaction that turns all unused capacity into room at the end.
\<close>

datatype fifo_op = Push_Op bytes | Free_Op usize | Compact_Op

fun fifo_pushed :: "fifo_op list \<Rightarrow> bytes" where
  "fifo_pushed [] = []"
| "fifo_pushed (Push_Op bs # ops) = bs @ fifo_pushed ops"
| "fifo_pushed (Free_Op n # ops) = fifo_pushed ops"
| "fifo_pushed (Compact_Op # ops) = fifo_pushed ops"

fun fifo_freed :: "fifo_op list \<Rightarrow> nat" where
  "fifo_freed [] = 0"
| "fifo_freed (Free_Op n # ops) = n + fifo_freed ops"
| "fifo_freed (Push_Op bs # ops) = fifo_freed ops"
| "fifo_freed (Compact_Op # ops) = fifo_freed ops"

fun fifo_run :: "('q \<Rightarrow> bytes \<Rightarrow> 'e + 'q) \<Rightarrow> ('q \<Rightarrow> usize \<Rightarrow> 'e + 'q) \<Rightarrow> ('q \<Rightarrow> 'e + 'q) \<Rightarrow>
    fifo_op list \<Rightarrow> 'q \<Rightarrow> 'e + 'q" where
  "fifo_run push pop compact [] q = Inr q"
| "fifo_run push pop compact (Push_Op bs # ops) q =
     and_then (push q bs) (fifo_run push pop compact ops)"
| "fifo_run push pop compact (Free_Op n # ops) q =
     and_then (pop q n) (fifo_run push pop compact ops)"
| "fifo_run push pop compact (Compact_Op # ops) q =
     and_then (compact q) (fifo_run push pop compact ops)"

locale byte_fifo =
  fixes inv :: "'q \<Rightarrow> bool"
    and contents :: "'q \<Rightarrow> bytes"
    and room :: "'q \<Rightarrow> nat"
    and cap :: "'q \<Rightarrow> nat"
    and push :: "'q \<Rightarrow> bytes \<Rightarrow> 'e + 'q"
    and pop :: "'q \<Rightarrow> usize \<Rightarrow> 'e + 'q"
    and compact :: "'q \<Rightarrow> 'e + 'q"
  assumes push_fits: "inv q \<Longrightarrow> length bs \<le> room q \<Longrightarrow>
      \<exists>q'. push q bs = Inr q' \<and> inv q' \<and> contents q' = contents q @ bs \<and> cap q' = cap q"
    and push_full: "inv q \<Longrightarrow> room q < length bs \<Longrightarrow> \<exists>e. push q bs = Inl e"
    and pop_le: "inv q \<Longrightarrow> n \<le> length (contents q) \<Longrightarrow>
      \<exists>q'. pop q n = Inr q' \<and> inv q' \<and> contents q' = drop n (contents q)
        \<and> room q' = room q \<and> cap q' = cap q"
    and pop_beyond: "inv q \<Longrightarrow> length (contents q) < n \<Longrightarrow> \<exists>e. pop q n = Inl e"
    and compact_ok: "inv q \<Longrightarrow>
      \<exists>q'. compact q = Inr q' \<and> inv q' \<and> contents q' = contents q
        \<and> room q' = cap q - length (contents q) \<and> cap q' = cap q"
begin

lemma push_Inr_iff:
  "inv q \<Longrightarrow> push q bs = Inr q' \<Longrightarrow>
     length bs \<le> room q \<and> inv q' \<and> contents q' = contents q @ bs \<and> cap q' = cap q"
  using push_fits[of q bs] push_full[of q bs] by (metis Inl_Inr_False Inr_inject not_le)

lemma pop_Inr_iff:
  "inv q \<Longrightarrow> pop q n = Inr q' \<Longrightarrow>
     n \<le> length (contents q) \<and> inv q' \<and> contents q' = drop n (contents q) \<and> cap q' = cap q"
  using pop_le[of q n] pop_beyond[of q n] by (metis Inl_Inr_False Inr_inject not_le)

lemma compact_Inr_iff:
  "inv q \<Longrightarrow> compact q = Inr q' \<Longrightarrow> inv q' \<and> contents q' = contents q \<and> cap q' = cap q"
  using compact_ok[of q] by auto

lemma run_fifo:
  assumes "inv q" and "fifo_run push pop compact ops q = Inr q'"
  shows "inv q' \<and> cap q' = cap q \<and> fifo_freed ops \<le> length (contents q @ fifo_pushed ops)
    \<and> contents q' = drop (fifo_freed ops) (contents q @ fifo_pushed ops)"
  using assms
proof (induction ops arbitrary: q rule: fifo_pushed.induct)
  case (2 bs ops)
  from "2.prems" obtain q1 where q1: "push q bs = Inr q1"
    and rest: "fifo_run push pop compact ops q1 = Inr q'"
    by (auto simp: and_then_Inr_iff)
  from push_Inr_iff[OF "2.prems"(1) q1] "2.IH"[OF _ rest] show ?case by simp
next
  case (3 n ops)
  from "3.prems" obtain q1 where q1: "pop q n = Inr q1"
    and rest: "fifo_run push pop compact ops q1 = Inr q'"
    by (auto simp: and_then_Inr_iff)
  from pop_Inr_iff[OF "3.prems"(1) q1] "3.IH"[OF _ rest] show ?case
    by (auto simp: add.commute)
next
  case (4 ops)
  from "4.prems" obtain q1 where q1: "compact q = Inr q1"
    and rest: "fifo_run push pop compact ops q1 = Inr q'"
    by (auto simp: and_then_Inr_iff)
  from compact_Inr_iff[OF "4.prems"(1) q1] "4.IH"[OF _ rest] show ?case by simp
qed auto

lemma compact_push:
  assumes "inv q" and "length bs \<le> cap q - length (contents q)"
  obtains q' q'' where "compact q = Inr q'" "push q' bs = Inr q''" "inv q''"
    "contents q'' = contents q @ bs" "cap q'' = cap q"
  using compact_ok[OF assms(1)] push_fits assms(2) by metis

end

interpretation sbq: byte_fifo sb_inv sb_bytes sb_room capacity sb_push_slice sb_free sb_reuse
proof (unfold_locales, goal_cases)
  case (1 q bs)
  then show ?case by (metis sb_push_slice_spec)
next
  case (2 q bs)
  then show ?case by (auto simp: sb_specs)
next
  case (3 q n)
  then show ?case by (metis sb_free_spec)
next
  case (4 q n)
  then show ?case by (rule sb_free_beyond)
next
  case (5 q)
  then show ?case by (metis sb_reuse_spec)
qed

section \<open>Making room for new data\<close>

text \<open>
  The idiom that the packet reader uses once and the stream sender twice before it pushes
  \<open>n\<close> bytes: where the buffer holds fewer than \<open>n\<close> bytes, give up if the free capacity
  \<open>max_len()\<close> is less than \<open>n\<close> (result \<open>Inl\<close> of that capacity) and compact otherwise; where
  it holds \<open>n\<close> bytes or more, leave it as it is.
\<close>

definition sb_make_room :: "simple_buf \<Rightarrow> usize \<Rightarrow> (buf_error, usize + simple_buf) res" where
  "sb_make_room b n =
     and_then (sb_len b) (\<lambda>l.
       if l < n then
         and_then (sb_max_len b) (\<lambda>m.
           if m < n then Inr (Inl m)
           else and_then (sb_reuse b) (\<lambda>b'. Inr (Inr b')))
       else Inr (Inr b))"

definition room_after_make_room :: "simple_buf \<Rightarrow> usize \<Rightarrow> nat" where
  "room_after_make_room b n =
     (if length (sb_bytes b) < n then capacity b - length (sb_bytes b) else sb_room b)"

lemma sb_make_room_full:
  assumes inv: "sb_inv b"
  shows "sb_make_room b n = Inr (Inl (capacity b - length (sb_bytes b))) \<longleftrightarrow>
     length (sb_bytes b) < n \<and> capacity b - length (sb_bytes b) < n"
proof -
  obtain b' where "sb_reuse b = Inr b'" using sb_reuse_spec[OF inv] by metis
  then show ?thesis using inv by (simp add: sb_make_room_def sb_specs)
qed

lemma sb_make_room_fits:
  assumes inv: "sb_inv b"
    and fits: "length (sb_bytes b) < n \<Longrightarrow> n \<le> capacity b - length (sb_bytes b)"
  obtains b' where "sb_make_room b n = Inr (Inr b')" "sb_inv b'" "sb_bytes b' = sb_bytes b"
    "capacity b' = capacity b" "sb_room b' = room_after_make_room b n"
proof (cases "length (sb_bytes b) < n")
  case True
  obtain b' where "sb_reuse b = Inr b'" "sb_inv b'" "sb_bytes b' = sb_bytes b"
    "capacity b' = capacity b" "sb_room b' = capacity b - length (sb_bytes b)"
    using sb_reuse_spec[OF inv] by metis
  then show ?thesis
    using True fits inv that[of b']
    by (simp add: sb_make_room_def room_after_make_room_def sb_specs)
next
  case False
  then show ?thesis
    using inv that[of b] by (simp add: sb_make_room_def room_after_make_room_def sb_specs)
qed

lemma sb_make_room_cases:
  assumes inv: "sb_inv b"
  obtains "sb_make_room b n = Inr (Inl (capacity b - length (sb_bytes b)))" "length (sb_bytes b) < n"
      "capacity b - length (sb_bytes b) < n"
  | b' where "sb_make_room b n = Inr (Inr b')" "sb_inv b'" "sb_bytes b' = sb_bytes b"
      "capacity b' = capacity b" "sb_room b' = room_after_make_room b n"
proof (cases "length (sb_bytes b) < n \<and> capacity b - length (sb_bytes b) < n")
  case True
  then show ?thesis using that(1) sb_make_room_full[OF inv] by blast
next
  case False
  then show ?thesis using sb_make_room_fits[OF inv, of n] that(2) by (metis not_le)
qed

section \<open>Properties\<close>

text \<open>C23: From a new buffer, any sequence of pushes, frees and compactions that all succeed
  leaves the indices in order and holds exactly the pushed bytes behind the freed ones, in
  order: the buffer is a first-in first-out queue of bytes.\<close>

theorem sb_fifo:
  assumes "cap < usize_bound"
    and "fifo_run sb_push_slice sb_free sb_reuse ops (sb_new cap) = Inr b"
  shows "sb_inv b \<and> capacity b = cap \<and> fifo_freed ops \<le> length (fifo_pushed ops)
    \<and> sb_bytes b = drop (fifo_freed ops) (fifo_pushed ops)"
  using sbq.run_fifo[OF sb_new_inv[OF assms(1)] assms(2)] by simp

theorem sb_fifo_witness:
  "\<exists>b. fifo_run sb_push_slice sb_free sb_reuse
       [Push_Op [1, 2, 3], Free_Op 2, Compact_Op, Push_Op [4, 5]] (sb_new 4) = Inr b
     \<and> sb_bytes b = [3, 4, 5]"
proof -
  let ?ops = "[Push_Op [1, 2, 3], Free_Op 2, Compact_Op, Push_Op [4, 5]]"
  have new: "sb_new 4 = \<lparr>data_vec = [0, 0, 0, 0], capacity = 4, vacant_idx = 0, occupied_idx = 0\<rparr>"
    by (simp add: sb_new_def eval_nat_numeral)
  obtain b where b: "fifo_run sb_push_slice sb_free sb_reuse ?ops (sb_new 4) = Inr b"
    by (simp add: sb_method_defs new)
  then show ?thesis using sb_fifo[OF _ b] by simp
qed

text \<open>When each method fails.  On a buffer whose indices are in order a push succeeds
  exactly when its bytes fit behind the vacant index, a free exactly when no more is freed
  than is held, compaction always, and the only failure of a push is the reported shortage.\<close>

lemma sb_method_outcomes:
  assumes "sb_inv b"
  shows "((\<exists>b'. sb_push_slice b bs = Inr b') \<longleftrightarrow> length bs \<le> capacity b - vacant_idx b)
    \<and> sb_push_slice b bs \<noteq> Inl Panic
    \<and> ((\<exists>b'. sb_free b n = Inr b') \<longleftrightarrow> n \<le> length (sb_bytes b))
    \<and> (\<exists>b'. sb_reuse b = Inr b' \<and> capacity b' - vacant_idx b' = capacity b - length (sb_bytes b))
    \<and> sb_len b = Inr (length (sb_bytes b)) \<and> sb_occupied_slice b = Inr (sb_bytes b)"
proof (intro conjI)
  show "(\<exists>b'. sb_push_slice b bs = Inr b') \<longleftrightarrow> length bs \<le> capacity b - vacant_idx b"
    using sbq.push_fits[OF assms, of bs] sb_push_slice_full[OF assms, of bs]
    by (fastforce simp: sb_room_def not_le)
  show "sb_push_slice b bs \<noteq> Inl Panic"
    using sbq.push_fits[OF assms, of bs] sb_push_slice_full[OF assms, of bs]
    by (cases "length bs \<le> sb_room b") auto
  show "(\<exists>b'. sb_free b n = Inr b') \<longleftrightarrow> n \<le> length (sb_bytes b)"
    using sbq.pop_le[OF assms, of n] sbq.pop_beyond[OF assms, of n] by (metis Inl_Inr_False not_le)
  show "\<exists>b'. sb_reuse b = Inr b' \<and> capacity b' - vacant_idx b' = capacity b - length (sb_bytes b)"
    using sbq.compact_ok[OF assms] by (auto simp: sb_room_def)
qed (simp_all add: sb_specs assms)

lemma sb_method_outcomes_witness:
  "\<exists>b'. sb_push_slice (sb_new 4) [1, 2, 3] = Inr b'"
  using sb_method_outcomes[OF sb_new_inv, of 4 "[1, 2, 3]"]
  by (simp add: sb_new_def)

end
