(* ===== verification/Quic_Process.thy ===== *)
theory Quic_Process
  imports Simple_Buf "HOL-Library.Sublist"
begin

text \<open>
  \<open>quic_process_loop\<close> of \<open>link/src/transport/link.rs\<close>: the task that owns the QUIC connection
  and moves data between the UDP channels and the stream channels, with the macro
  \<open>conn_send_loop\<close>.

  The connection of the \<open>quiche\<close> crate is a parameter: its state is the type variable \<open>'c\<close> and
  its methods are the fields of the record \<open>quiche\<close>.  A loop of the code that only the
  connection can end (\<open>loop { match conn.send(..) }\<close>) is a \<open>partial_function\<close> into
  \<open>option\<close>: \<open>None\<close> is the task that never comes back to its \<open>select!\<close>.  Logging and the cost
  metrics are left out.
\<close>

section \<open>Runs that may not end\<close>

type_synonym ('e, 's) run = "('e, 's) ctl option"

definition run_then :: "('e, 's) run \<Rightarrow> ('s \<Rightarrow> ('e, 's) run) \<Rightarrow> ('e, 's) run" where
  "run_then m f =
     Option.bind m (\<lambda>r. case r of Continue s \<Rightarrow> f s | Break e s \<Rightarrow> Some (Break e s))"

lemma run_then_simps [simp]:
  "run_then None f = None"
  "run_then (Some (Continue s)) f = f s"
  "run_then (Some (Break e s)) f = Some (Break e s)"
  by (simp_all add: run_then_def)

lemma run_then_mono [partial_function_mono]:
  assumes "mono_option B" and "\<And>s. mono_option (\<lambda>f. C s f)"
  shows "mono_option (\<lambda>f. run_then (B f) (\<lambda>s. C s f))"
  unfolding run_then_def
proof (rule bind_mono[OF assms(1)])
  fix r
  show "mono_option (\<lambda>f. case r of Continue s \<Rightarrow> C s f | Break e s \<Rightarrow> Some (Break e s))"
    by (cases r) (simp_all add: assms(2) option.const_mono)
qed

section \<open>The connection\<close>

type_synonym stream_id = u64

definition DEFAULT_CLIENT_BI_STREAM_ID :: stream_id where
  "DEFAULT_CLIENT_BI_STREAM_ID = 0"

datatype quic_error = Q_Done | Q_Error

text \<open>
  The methods of \<open>quiche::Connection\<close> that the code calls.  A method that fills a buffer takes
  the buffer's length and returns the bytes it wrote; \<open>qc_timeout\<close> is in nanoseconds.
\<close>

record 'c quiche =
  qc_send :: "usize \<Rightarrow> 'c \<Rightarrow> (quic_error + bytes) \<times> 'c"
  qc_recv :: "bytes \<Rightarrow> 'c \<Rightarrow> (quic_error + usize) \<times> 'c"
  qc_readable :: "'c \<Rightarrow> stream_id list"
  qc_stream_recv :: "stream_id \<Rightarrow> usize \<Rightarrow> 'c \<Rightarrow> (quic_error + bytes \<times> bool) \<times> 'c"
  qc_stream_send :: "stream_id \<Rightarrow> bytes \<Rightarrow> bool \<Rightarrow> 'c \<Rightarrow> (quic_error + usize) \<times> 'c"
  qc_timeout :: "'c \<Rightarrow> nat option"
  qc_on_timeout :: "'c \<Rightarrow> 'c"
  qc_is_timed_out :: "'c \<Rightarrow> bool"
  qc_is_closed :: "'c \<Rightarrow> bool"
  qc_is_established :: "'c \<Rightarrow> bool"

section \<open>The task's state and events\<close>

record 'c quic_state =
  conn :: 'c
  stream_send_buffer :: simple_buf
  quic_data_recv_tx :: "bytes chan"
  udp_data_send_tx :: "bytes chan"
  udp_data_buffer_size :: usize
  stream_recv_buffer_size :: usize
  sleeping_timers :: "nat list"

definition quic_init ::
    "'c \<Rightarrow> bytes chan \<Rightarrow> bytes chan \<Rightarrow> usize \<Rightarrow> usize \<Rightarrow> usize \<Rightarrow> 'c quic_state" where
  "quic_init c recv_tx send_tx udp_size stream_read_size stream_send_size =
     \<lparr>conn = c, stream_send_buffer = sb_new stream_send_size, quic_data_recv_tx = recv_tx,
      udp_data_send_tx = send_tx, udp_data_buffer_size = udp_size,
      stream_recv_buffer_size = stream_read_size, sleeping_timers = []\<rparr>"

datatype quic_loop_error =
  ConnSendFailed | UdpDataSendClosed | TimeoutSignalClosed | ConnRecvFailed
| QuicDataRecvTxClosed | StreamFin | StreamRecvFailed | UdpDataRecvClosed
| SendBufferFreeFailed buf_error | StreamSendFailed | ConnTimedOut | ConnClosed
| SendBufferTooSmall usize usize | SendBufferPushFailed buf_error | QuicSendClosed

datatype quic_event =
  Timeout_Signal | Timeout_Lagged | Timeout_Closed
| Udp_Data bytes | Udp_Closed | Tick | Send_Data bytes | Send_Closed

type_synonym 'c quic_run = "(quic_loop_error fault, 'c quic_state) run"

section \<open>Draining the connection\<close>

text \<open>
  The macro: send until the connection has nothing more to say.  The variant with the timeout
  channel also spawns a sleep for a timeout under one millisecond that is not zero.
\<close>

definition spawn_timer :: "'c quiche \<Rightarrow> bool \<Rightarrow> 'c quic_state \<Rightarrow> 'c quic_state" where
  "spawn_timer q with_timer s =
     (case qc_timeout q (conn s) of
        Some d \<Rightarrow> if with_timer \<and> d div 1000000 < 1 \<and> d \<noteq> 0
                  then s\<lparr>sleeping_timers := sleeping_timers s @ [d]\<rparr> else s
      | None \<Rightarrow> s)"

partial_function (option) conn_send_loop ::
    "'c quiche \<Rightarrow> bool \<Rightarrow> 'c quic_state \<Rightarrow> 'c quic_run" where
  "conn_send_loop q with_timer s =
     (case qc_send q (udp_data_buffer_size s) (conn s) of
        (Inr write, c) \<Rightarrow>
          let s' = spawn_timer q with_timer (s\<lparr>conn := c\<rparr>) in
          (case chan_send write (udp_data_send_tx s') of
             None \<Rightarrow> Some (Break (Err UdpDataSendClosed) s')
           | Some tx \<Rightarrow> conn_send_loop q with_timer (s'\<lparr>udp_data_send_tx := tx\<rparr>))
      | (Inl Q_Done, c) \<Rightarrow> Some (Continue (s\<lparr>conn := c\<rparr>))
      | (Inl Q_Error, c) \<Rightarrow> Some (Break (Err ConnSendFailed) (s\<lparr>conn := c\<rparr>)))"

section \<open>Receiving\<close>

partial_function (option) conn_recv_loop ::
    "'c quiche \<Rightarrow> bytes \<Rightarrow> usize \<Rightarrow> 'c quic_state \<Rightarrow> 'c quic_run" where
  "conn_recv_loop q b sent s =
     (if sent < length b then
        (case qc_recv q (drop sent b) (conn s) of
           (Inr read, c) \<Rightarrow> conn_recv_loop q b (sent + read) (s\<lparr>conn := c\<rparr>)
         | (Inl e, c) \<Rightarrow> Some (Break (Err ConnRecvFailed) (s\<lparr>conn := c\<rparr>)))
      else Some (Continue s))"

partial_function (option) stream_read_loop ::
    "'c quiche \<Rightarrow> stream_id \<Rightarrow> 'c quic_state \<Rightarrow> 'c quic_run" where
  "stream_read_loop q sid s =
     (case qc_stream_recv q sid (stream_recv_buffer_size s) (conn s) of
        (Inr (read, fin), c) \<Rightarrow>
          let s' = s\<lparr>conn := c\<rparr> in
          (case chan_send read (quic_data_recv_tx s') of
             None \<Rightarrow> Some (Break (Err QuicDataRecvTxClosed) s')
           | Some tx \<Rightarrow>
               let s'' = s'\<lparr>quic_data_recv_tx := tx\<rparr> in
               if fin then Some (Break (Err StreamFin) s'')
               else run_then (conn_send_loop q True s'') (stream_read_loop q sid))
      | (Inl Q_Done, c) \<Rightarrow> Some (Continue (s\<lparr>conn := c\<rparr>))
      | (Inl Q_Error, c) \<Rightarrow> Some (Break (Err StreamRecvFailed) (s\<lparr>conn := c\<rparr>)))"

fun read_streams :: "'c quiche \<Rightarrow> stream_id list \<Rightarrow> 'c quic_state \<Rightarrow> 'c quic_run" where
  "read_streams q [] s = Some (Continue s)"
| "read_streams q (sid # sids) s = run_then (stream_read_loop q sid s) (read_streams q sids)"

definition on_udp_data :: "'c quiche \<Rightarrow> bytes \<Rightarrow> 'c quic_state \<Rightarrow> 'c quic_run" where
  "on_udp_data q b s =
     run_then (conn_recv_loop q b 0 s) (\<lambda>s.
     run_then (conn_send_loop q True s) (\<lambda>s.
       read_streams q (qc_readable q (conn s)) s))"

section \<open>Sending\<close>

partial_function (option) flush_loop :: "'c quiche \<Rightarrow> 'c quic_state \<Rightarrow> 'c quic_run" where
  "flush_loop q s =
     (case sb_is_empty (stream_send_buffer s) of
        Inl e \<Rightarrow> Some (Break Panic s)
      | Inr is_empty \<Rightarrow>
          if is_empty then Some (Continue s)
          else (case sb_occupied_slice (stream_send_buffer s) of
             Inr occupied \<Rightarrow>
               (case qc_stream_send q DEFAULT_CLIENT_BI_STREAM_ID occupied False (conn s) of
                  (Inr sent, c) \<Rightarrow>
                    (case sb_free (stream_send_buffer s) sent of
                       Inr buf \<Rightarrow>
                         run_then (conn_send_loop q True (s\<lparr>conn := c, stream_send_buffer := buf\<rparr>))
                           (flush_loop q)
                     | Inl Panic \<Rightarrow> Some (Break Panic (s\<lparr>conn := c\<rparr>))
                     | Inl (Err e) \<Rightarrow> Some (Break (Err (SendBufferFreeFailed e)) (s\<lparr>conn := c\<rparr>)))
                | (Inl Q_Done, c) \<Rightarrow> Some (Continue (s\<lparr>conn := c\<rparr>))
                | (Inl Q_Error, c) \<Rightarrow> Some (Break (Err StreamSendFailed) (s\<lparr>conn := c\<rparr>)))
           | Inl e \<Rightarrow> Some (Break Panic s)))"

definition on_tick :: "'c quiche \<Rightarrow> 'c quic_state \<Rightarrow> 'c quic_run" where
  "on_tick q s =
     run_then (flush_loop q s) (\<lambda>s.
     run_then
       (if qc_timeout q (conn s) = Some 0
        then conn_send_loop q False (s\<lparr>conn := qc_on_timeout q (conn s)\<rparr>)
        else Some (Continue s)) (\<lambda>s.
       if qc_is_timed_out q (conn s) then Some (Break (Err ConnTimedOut) s)
       else if qc_is_closed q (conn s) then Some (Break (Err ConnClosed) s)
       else Some (Continue s)))"

text \<open>\<open>while sent < b.len()\<close>; the loop hands back how much of \<open>b\<close> was taken.\<close>

partial_function (option) stream_send_loop ::
    "'c quiche \<Rightarrow> bytes \<Rightarrow> 'c quic_state \<times> usize \<Rightarrow>
       (quic_loop_error fault, 'c quic_state \<times> usize) run" where
  "stream_send_loop q b st =
     (case st of (s, sent) \<Rightarrow>
        if sent < length b then
          (case qc_stream_send q DEFAULT_CLIENT_BI_STREAM_ID (drop sent b) False (conn s) of
             (Inr v, c) \<Rightarrow>
               run_then
                 (map_option (map_ctl id (\<lambda>t. (t, sent + v)))
                    (conn_send_loop q True (s\<lparr>conn := c\<rparr>)))
                 (stream_send_loop q b)
           | (Inl Q_Done, c) \<Rightarrow> Some (Continue (s\<lparr>conn := c\<rparr>, sent))
           | (Inl Q_Error, c) \<Rightarrow> Some (Break (Err StreamSendFailed) (s\<lparr>conn := c\<rparr>, sent)))
        else Some (Continue (s, sent)))"

definition keep_unsent :: "bytes \<Rightarrow> usize \<Rightarrow> 'c quic_state \<Rightarrow> 'c quic_run" where
  "keep_unsent b sent s =
     (if sent \<noteq> length b then
        (case sb_make_room (stream_send_buffer s) (length b) of
           Inl e \<Rightarrow> Some (Break Panic s)
         | Inr (Inl max_len) \<Rightarrow> Some (Break (Err (SendBufferTooSmall max_len (length b))) s)
         | Inr (Inr buf) \<Rightarrow>
             (case (slice_from b sent :: (buf_error, bytes) res) of
                Inl e \<Rightarrow> Some (Break Panic s)
              | Inr rest \<Rightarrow>
                  (case sb_push_slice buf rest of
                     Inr buf' \<Rightarrow> Some (Continue (s\<lparr>stream_send_buffer := buf'\<rparr>))
                   | Inl Panic \<Rightarrow> Some (Break Panic (s\<lparr>stream_send_buffer := buf\<rparr>))
                   | Inl (Err e) \<Rightarrow> Some (Break (Err (SendBufferPushFailed e))
                                         (s\<lparr>stream_send_buffer := buf\<rparr>)))))
      else Some (Continue s))"

definition send_fresh :: "'c quiche \<Rightarrow> bytes \<Rightarrow> 'c quic_state \<Rightarrow> 'c quic_run" where
  "send_fresh q b s =
     Option.bind (stream_send_loop q b (s, 0)) (\<lambda>r.
       case r of Break e (t, sent) \<Rightarrow> Some (Break e t) | Continue (t, sent) \<Rightarrow> keep_unsent b sent t)"

definition on_send_data :: "'c quiche \<Rightarrow> bytes \<Rightarrow> 'c quic_state \<Rightarrow> 'c quic_run" where
  "on_send_data q b s =
     run_then (flush_loop q s) (\<lambda>s.
       case sb_reuse_if (stream_send_buffer s) of
         Inl e \<Rightarrow> Some (Break Panic s)
       | Inr (_, buf) \<Rightarrow>
           let s = s\<lparr>stream_send_buffer := buf\<rparr> in
           (case sb_make_room buf (length b) of
              Inl e \<Rightarrow> Some (Break Panic s)
            | Inr (Inl max_len) \<Rightarrow> Some (Continue s)
            | Inr (Inr buf') \<Rightarrow> send_fresh q b (s\<lparr>stream_send_buffer := buf'\<rparr>)))"

section \<open>The loop\<close>

fun quic_step :: "'c quiche \<Rightarrow> quic_event \<Rightarrow> 'c quic_state \<Rightarrow> 'c quic_run" where
  "quic_step q Timeout_Signal s = conn_send_loop q False (s\<lparr>conn := qc_on_timeout q (conn s)\<rparr>)"
| "quic_step q Timeout_Lagged s = conn_send_loop q False (s\<lparr>conn := qc_on_timeout q (conn s)\<rparr>)"
| "quic_step q Timeout_Closed s = Some (Break (Err TimeoutSignalClosed) s)"
| "quic_step q (Udp_Data b) s = on_udp_data q b s"
| "quic_step q Udp_Closed s = Some (Break (Err UdpDataRecvClosed) s)"
| "quic_step q Tick s = on_tick q s"
| "quic_step q (Send_Data b) s = on_send_data q b s"
| "quic_step q Send_Closed s = Some (Break (Err QuicSendClosed) s)"

fun quic_process_loop :: "'c quiche \<Rightarrow> quic_event list \<Rightarrow> 'c quic_state \<Rightarrow> 'c quic_run" where
  "quic_process_loop q [] s = Some (Continue s)"
| "quic_process_loop q (ev # evs) s = run_then (quic_step q ev s) (quic_process_loop q evs)"

end
