(* ===== verification/Quic_Laws.thy ===== *)
theory Quic_Laws
  imports Quic_Process
begin

text \<open>
  What \<open>quic_process_loop\<close> guarantees over any connection that keeps the documented contract of
  \<open>quiche::Connection\<close>, stated as the locale \<open>quic_conn\<close>.  Three observations of a connection
  carry the statements: \<open>accepted\<close>, the bytes its stream has taken from \<open>stream_send\<close>;
  \<open>emitted\<close>, the datagrams it has handed out; \<open>taken\<close>, the pieces of stream data read from it.
  Two measures bound its loops: \<open>backlog\<close> (datagrams still to send) and \<open>unread\<close> (stream data
  still to read).
\<close>

section \<open>Total correctness of a run\<close>

text \<open>
  The errors the loop may end with: all but a panic, a refused \<open>free\<close> and the second
  capacity check, which the lemmas below show unreachable.
\<close>

fun expected :: "quic_loop_error fault \<Rightarrow> bool" where
  "expected Panic = False"
| "expected (Err (SendBufferTooSmall m n)) = False"
| "expected (Err (SendBufferFreeFailed e)) = False"
| "expected (Err e) = True"

definition runs :: "(quic_loop_error fault, 's) run \<Rightarrow> ('s \<Rightarrow> bool) \<Rightarrow> bool" where
  "runs m P \<longleftrightarrow> (\<exists>r. m = Some r \<and> (case r of Continue s \<Rightarrow> P s | Break e s \<Rightarrow> expected e))"

lemma runs_simps [simp]:
  "runs (Some (Continue s)) P \<longleftrightarrow> P s"
  "runs (Some (Break e s)) P \<longleftrightarrow> expected e"
  "\<not> runs None P"
  by (simp_all add: runs_def)

lemma runsE:
  assumes "runs m P"
  obtains s where "m = Some (Continue s)" "P s"
    | e s where "m = Some (Break e s)" "expected e"
proof -
  from assms obtain r where "m = Some r" "case r of Continue s \<Rightarrow> P s | Break e s \<Rightarrow> expected e"
    by (auto simp: runs_def)
  with that show ?thesis by (cases r) auto
qed

lemma runs_then: "runs m P \<Longrightarrow> (\<And>s. P s \<Longrightarrow> runs (f s) Q) \<Longrightarrow> runs (run_then m f) Q"
  by (erule runsE) simp_all

lemma runs_weaken: "runs m P \<Longrightarrow> (\<And>s. P s \<Longrightarrow> Q s) \<Longrightarrow> runs m Q"
  by (erule runsE) simp_all

lemma runs_map: "runs m (\<lambda>s. P (f s)) \<Longrightarrow> runs (map_option (map_ctl id f) m) P"
  by (erule runsE) simp_all

lemma runs_Continue: "runs m P \<Longrightarrow> m = Some (Continue s) \<Longrightarrow> P s"
  by simp

section \<open>The contract of the connection\<close>

text \<open>The messages the application handed over.\<close>

fun sent_data :: "quic_event list \<Rightarrow> bytes list" where
  "sent_data [] = []"
| "sent_data (Send_Data b # evs) = b # sent_data evs"
| "sent_data (_ # evs) = sent_data evs"

locale quic_conn =
  fixes q :: "'c quiche"
    and accepted :: "'c \<Rightarrow> bytes"
    and emitted :: "'c \<Rightarrow> bytes list"
    and taken :: "'c \<Rightarrow> bytes list"
    and backlog :: "'c \<Rightarrow> nat"
    and unread :: "'c \<Rightarrow> nat"
  assumes send_some: "qc_send q n c = (Inr d, c') \<Longrightarrow>
      accepted c' = accepted c \<and> emitted c' = emitted c @ [d] \<and> taken c' = taken c
      \<and> backlog c' < backlog c \<and> unread c' \<le> unread c"
    and send_none: "qc_send q n c = (Inl e, c') \<Longrightarrow>
      accepted c' = accepted c \<and> emitted c' = emitted c \<and> taken c' = taken c
      \<and> unread c' \<le> unread c"
    and recv_some: "qc_recv q b c = (Inr n, c') \<Longrightarrow> b \<noteq> [] \<Longrightarrow> 0 < n"
    and recv_any: "qc_recv q b c = (r, c') \<Longrightarrow>
      accepted c' = accepted c \<and> emitted c' = emitted c \<and> taken c' = taken c"
    and on_timeout: "accepted (qc_on_timeout q c) = accepted c
      \<and> emitted (qc_on_timeout q c) = emitted c \<and> taken (qc_on_timeout q c) = taken c"
    and stream_recv_some: "qc_stream_recv q sid n c = (Inr (d, fin), c') \<Longrightarrow>
      accepted c' = accepted c \<and> emitted c' = emitted c \<and> taken c' = taken c @ [d]
      \<and> unread c' < unread c"
    and stream_recv_none: "qc_stream_recv q sid n c = (Inl e, c') \<Longrightarrow>
      accepted c' = accepted c \<and> emitted c' = emitted c \<and> taken c' = taken c"
    and stream_send_some: "qc_stream_send q sid b fin c = (Inr n, c') \<Longrightarrow> b \<noteq> [] \<Longrightarrow>
      0 < n \<and> n \<le> length b \<and> accepted c' = accepted c @ take n b
      \<and> emitted c' = emitted c \<and> taken c' = taken c"
    and stream_send_none: "qc_stream_send q sid b fin c = (Inl e, c') \<Longrightarrow>
      accepted c' = accepted c \<and> emitted c' = emitted c \<and> taken c' = taken c"
    and stream_send_done: "qc_stream_send q sid b fin c = (Inl Q_Done, c') \<Longrightarrow> b \<noteq> [] \<Longrightarrow>
      b' \<noteq> [] \<Longrightarrow> fst (qc_stream_send q sid b' fin c') = Inl Q_Done"
begin

section \<open>What every loop preserves\<close>

text \<open>
  \<open>s'\<close> is reached from \<open>s\<close> by steps that touch neither the send buffer nor the stream
  data taken from the application, and that hand on every datagram and every piece of stream
  data.
\<close>

definition moved :: "'c quic_state \<Rightarrow> 'c quic_state \<Rightarrow> bool" where
  "moved s s' \<longleftrightarrow>
     (\<exists>ds. emitted (conn s') = emitted (conn s) @ ds
        \<and> ch_sent (udp_data_send_tx s') = ch_sent (udp_data_send_tx s) @ ds)
     \<and> (\<exists>xs. taken (conn s') = taken (conn s) @ xs
        \<and> ch_sent (quic_data_recv_tx s') = ch_sent (quic_data_recv_tx s) @ xs)"

definition idle :: "'c quic_state \<Rightarrow> 'c quic_state \<Rightarrow> bool" where
  "idle s s' \<longleftrightarrow> moved s s' \<and> accepted (conn s') = accepted (conn s)
     \<and> stream_send_buffer s' = stream_send_buffer s"

lemma moved_refl [simp]: "moved s s"
  by (simp add: moved_def)

lemma moved_trans: "moved s t \<Longrightarrow> moved t u \<Longrightarrow> moved s u"
  by (fastforce simp: moved_def)

lemma idle_refl [simp]: "idle s s"
  by (simp add: idle_def)

lemma idle_trans: "idle s t \<Longrightarrow> idle t u \<Longrightarrow> idle s u"
  by (auto simp: idle_def intro: moved_trans)

lemma idle_conn:
  "accepted c = accepted (conn s) \<Longrightarrow> emitted c = emitted (conn s) \<Longrightarrow> taken c = taken (conn s) \<Longrightarrow>
     idle s (s\<lparr>conn := c\<rparr>)"
  by (simp add: idle_def moved_def)

lemma spawn_timer_fields [simp]:
  "conn (spawn_timer q w s) = conn s" "stream_send_buffer (spawn_timer q w s) = stream_send_buffer s"
  "quic_data_recv_tx (spawn_timer q w s) = quic_data_recv_tx s"
  "udp_data_send_tx (spawn_timer q w s) = udp_data_send_tx s"
  by (auto simp: spawn_timer_def split: option.split)

lemma conn_send_loop_runs:
  "runs (conn_send_loop q w s) (\<lambda>s'. idle s s' \<and> unread (conn s') \<le> unread (conn s))"
proof (induction "backlog (conn s)" arbitrary: s rule: less_induct)
  case less
  obtain r c where send: "qc_send q (udp_data_buffer_size s) (conn s) = (r, c)" by fastforce
  show ?case
  proof (cases r)
    case (Inl e)
    then show ?thesis
      using send_none[OF send[unfolded Inl]] send
      by (cases e; subst conn_send_loop.simps) (simp_all add: idle_conn)
  next
    case (Inr d)
    note step = send_some[OF send[unfolded Inr]]
    let ?t = "spawn_timer q w (s\<lparr>conn := c\<rparr>)"
    show ?thesis
    proof (cases "chan_send d (udp_data_send_tx s)")
      case None
      then show ?thesis using send Inr by (subst conn_send_loop.simps) (simp add: Let_def)
    next
      case (Some tx)
      let ?u = "?t\<lparr>udp_data_send_tx := tx\<rparr>"
      have "idle s ?u"
        using step chan_send_Some[OF Some] by (simp add: idle_def moved_def)
      moreover have "runs (conn_send_loop q w ?u)
          (\<lambda>s'. idle ?u s' \<and> unread (conn s') \<le> unread (conn ?u))"
        using step by (intro less) simp
      ultimately have "runs (conn_send_loop q w ?u)
          (\<lambda>s'. idle s s' \<and> unread (conn s') \<le> unread (conn s))"
        using step by (elim runs_weaken) (auto intro: idle_trans)
      then show ?thesis
        using send Inr Some by (subst conn_send_loop.simps) (simp add: Let_def)
    qed
  qed
qed

lemma conn_recv_loop_runs: "runs (conn_recv_loop q b n s) (idle s)"
proof (induction "length b - n" arbitrary: n s rule: less_induct)
  case less
  show ?case
  proof (cases "n < length b")
    case True
    obtain r c where recv: "qc_recv q (drop n b) (conn s) = (r, c)" by fastforce
    note same = recv_any[OF recv]
    show ?thesis
    proof (cases r)
      case (Inl e)
      then show ?thesis using True recv by (subst conn_recv_loop.simps) simp
    next
      case (Inr m)
      have "0 < m" using recv_some recv Inr True by (metis drop_eq_Nil not_le)
      then have "runs (conn_recv_loop q b (n + m) (s\<lparr>conn := c\<rparr>)) (idle (s\<lparr>conn := c\<rparr>))"
        using True by (intro less) simp
      then have "runs (conn_recv_loop q b (n + m) (s\<lparr>conn := c\<rparr>)) (idle s)"
        using same by (elim runs_weaken) (auto intro: idle_trans idle_conn)
      then show ?thesis using True recv Inr by (subst conn_recv_loop.simps) simp
    qed
  qed (subst conn_recv_loop.simps, simp)
qed

lemma stream_read_loop_runs: "runs (stream_read_loop q sid s) (idle s)"
proof (induction "unread (conn s)" arbitrary: s rule: less_induct)
  case less
  obtain r c where recv: "qc_stream_recv q sid (stream_recv_buffer_size s) (conn s) = (r, c)"
    by fastforce
  show ?case
  proof (cases r)
    case (Inl e)
    then show ?thesis
      using stream_recv_none[OF recv[unfolded Inl]] recv
      by (cases e; subst stream_read_loop.simps) (simp_all add: idle_conn)
  next
    case (Inr df)
    then obtain d fin where r: "r = Inr (d, fin)" by (cases df) auto
    note step = stream_recv_some[OF recv[unfolded r]]
    let ?t = "s\<lparr>conn := c\<rparr>"
    show ?thesis
    proof (cases "chan_send d (quic_data_recv_tx s)")
      case None
      then show ?thesis using recv r by (subst stream_read_loop.simps) (simp add: Let_def)
    next
      case (Some tx)
      let ?u = "?t\<lparr>quic_data_recv_tx := tx\<rparr>"
      have u: "idle s ?u" using step chan_send_Some[OF Some] by (simp add: idle_def moved_def)
      have "runs (run_then (conn_send_loop q True ?u) (stream_read_loop q sid)) (idle s)"
      proof (rule runs_then[OF conn_send_loop_runs])
        fix v assume v: "idle ?u v \<and> unread (conn v) \<le> unread (conn ?u)"
        then have "runs (stream_read_loop q sid v) (idle v)" using step by (intro less) simp
        then show "runs (stream_read_loop q sid v) (idle s)"
          by (rule runs_weaken) (use u v idle_trans in blast)
      qed
      then show ?thesis using recv r Some by (subst stream_read_loop.simps) (simp add: Let_def)
    qed
  qed
qed

lemma read_streams_runs: "runs (read_streams q sids s) (idle s)"
proof (induction sids arbitrary: s)
  case (Cons sid sids)
  show ?case
    unfolding read_streams.simps
  proof (rule runs_then[OF stream_read_loop_runs])
    fix t assume "idle s t"
    with Cons[of t] show "runs (read_streams q sids t) (idle s)"
      by (auto elim: runs_weaken intro: idle_trans)
  qed
qed simp

lemma on_udp_data_runs: "runs (on_udp_data q b s) (idle s)"
  unfolding on_udp_data_def
proof (rule runs_then[OF conn_recv_loop_runs], rule runs_then[OF conn_send_loop_runs])
  fix t u assume "idle s t" "idle t u \<and> unread (conn u) \<le> unread (conn t)"
  then show "runs (read_streams q (qc_readable q (conn u)) u) (idle s)"
    using read_streams_runs by (blast intro: runs_weaken idle_trans)
qed

section \<open>Sending\<close>

text \<open>
  The bytes on their way out: what the stream has accepted, followed by what the send buffer
  holds.  \<open>blocked\<close> is a connection that has answered \<open>Done\<close>.
\<close>

definition outgoing :: "'c quic_state \<Rightarrow> bytes" where
  "outgoing s = accepted (conn s) @ sb_bytes (stream_send_buffer s)"

definition blocked :: "'c \<Rightarrow> bool" where
  "blocked c \<longleftrightarrow> (\<forall>b. b \<noteq> [] \<longrightarrow>
     fst (qc_stream_send q DEFAULT_CLIENT_BI_STREAM_ID b False c) = Inl Q_Done)"

definition flushed :: "'c quic_state \<Rightarrow> 'c quic_state \<Rightarrow> bool" where
  "flushed s s' \<longleftrightarrow> moved s s' \<and> outgoing s' = outgoing s
     \<and> sb_inv (stream_send_buffer s')
     \<and> capacity (stream_send_buffer s') = capacity (stream_send_buffer s)"

lemma idle_flushed: "idle s s' \<Longrightarrow> sb_inv (stream_send_buffer s) \<Longrightarrow> flushed s s'"
  by (simp add: idle_def flushed_def outgoing_def)

lemma flushed_trans: "flushed s t \<Longrightarrow> flushed t u \<Longrightarrow> flushed s u"
  by (auto simp: flushed_def intro: moved_trans)

lemma flush_loop_runs:
  assumes "sb_inv (stream_send_buffer s)"
  shows "runs (flush_loop q s)
     (\<lambda>s'. flushed s s' \<and> (sb_bytes (stream_send_buffer s') = [] \<or> blocked (conn s')))"
  using assms
proof (induction "length (sb_bytes (stream_send_buffer s))" arbitrary: s rule: less_induct)
  case less
  let ?buf = "stream_send_buffer s"
  note inv = \<open>sb_inv ?buf\<close>
  show ?case
  proof (cases "sb_bytes ?buf = []")
    case True
    then show ?thesis
      using inv by (subst flush_loop.simps) (simp add: sb_specs idle_flushed)
  next
    case False
    obtain r c where send:
      "qc_stream_send q DEFAULT_CLIENT_BI_STREAM_ID (sb_bytes ?buf) False (conn s) = (r, c)"
      by fastforce
    show ?thesis
    proof (cases r)
      case (Inl e)
      note same = stream_send_none[OF send[unfolded Inl]]
      show ?thesis
      proof (cases e)
        case Q_Done
        have "blocked c"
          using stream_send_done[OF send[unfolded Inl Q_Done] False] by (simp add: blocked_def)
        then show ?thesis
          using send Inl Q_Done same inv False
          by (subst flush_loop.simps) (simp add: sb_specs idle_conn idle_flushed)
      next
        case Q_Error
        then show ?thesis
          using send Inl inv False by (subst flush_loop.simps) (simp add: sb_specs)
      qed
    next
      case (Inr n)
      note step = stream_send_some[OF send[unfolded Inr] False]
      obtain buf where free: "sb_free ?buf n = Inr buf" "sb_inv buf"
        "sb_bytes buf = drop n (sb_bytes ?buf)" "capacity buf = capacity ?buf"
        using sb_free_spec[OF inv] step by metis
      let ?t = "s\<lparr>conn := c, stream_send_buffer := buf\<rparr>"
      have t: "flushed s ?t"
        using step free by (simp add: flushed_def moved_def outgoing_def)
      have "runs (run_then (conn_send_loop q True ?t) (flush_loop q))
        (\<lambda>s'. flushed s s' \<and> (sb_bytes (stream_send_buffer s') = [] \<or> blocked (conn s')))"
      proof (rule runs_then[OF conn_send_loop_runs])
        fix u assume u: "idle ?t u \<and> unread (conn u) \<le> unread (conn ?t)"
        then have buf_u: "stream_send_buffer u = buf" by (simp add: idle_def)
        then have "length (sb_bytes (stream_send_buffer u)) < length (sb_bytes ?buf)"
          using free step False by (simp add: length_greater_0_conv[symmetric] del: length_greater_0_conv)
        with less.hyps[OF this] free(2) buf_u
        have "runs (flush_loop q u) (\<lambda>s'. flushed u s'
            \<and> (sb_bytes (stream_send_buffer s') = [] \<or> blocked (conn s')))" by simp
        moreover have "flushed s u"
          using flushed_trans[OF t idle_flushed[of ?t u]] u free(2) by simp
        ultimately show "runs (flush_loop q u) (\<lambda>s'. flushed s s'
            \<and> (sb_bytes (stream_send_buffer s') = [] \<or> blocked (conn s')))"
          by (elim runs_weaken) (blast intro: flushed_trans)
      qed
      then show ?thesis
        using send Inr inv False free(1) by (subst flush_loop.simps) (simp add: sb_specs)
    qed
  qed
qed

lemma stream_send_loop_runs:
  assumes "n \<le> length b"
  shows "runs (stream_send_loop q b (s, n)) (\<lambda>(s', m). n \<le> m \<and> m \<le> length b \<and> moved s s'
     \<and> accepted (conn s') = accepted (conn s) @ take (m - n) (drop n b)
     \<and> stream_send_buffer s' = stream_send_buffer s)"
  using assms
proof (induction "length b - n" arbitrary: n s rule: less_induct)
  case less
  show ?case
  proof (cases "n < length b")
    case True
    then have rest: "drop n b \<noteq> []" by simp
    obtain r c where send:
      "qc_stream_send q DEFAULT_CLIENT_BI_STREAM_ID (drop n b) False (conn s) = (r, c)"
      by fastforce
    show ?thesis
    proof (cases r)
      case (Inl e)
      note same = stream_send_none[OF send[unfolded Inl]]
      then show ?thesis
        using send Inl True idle_conn[of c s]
        by (cases e; subst stream_send_loop.simps) (simp_all add: idle_def)
    next
      case (Inr v)
      note step = stream_send_some[OF send[unfolded Inr] rest]
      let ?t = "s\<lparr>conn := c\<rparr>"
      have "runs (run_then (map_option (map_ctl id (\<lambda>t. (t, n + v))) (conn_send_loop q True ?t))
          (stream_send_loop q b))
        (\<lambda>(s', m). n \<le> m \<and> m \<le> length b \<and> moved s s'
           \<and> accepted (conn s') = accepted (conn s) @ take (m - n) (drop n b)
           \<and> stream_send_buffer s' = stream_send_buffer s)"
      proof (rule runs_then, rule runs_map)
        show "runs (conn_send_loop q True ?t) (\<lambda>u. case (u, n + v) of (u, m) \<Rightarrow> idle ?t u \<and> m = n + v)"
          using conn_send_loop_runs[of True ?t] by (rule runs_weaken) simp
        fix st assume "case st of (u, m) \<Rightarrow> idle ?t u \<and> m = n + v"
        then obtain u where st: "st = (u, n + v)" and u: "idle ?t u" by (cases st) auto
        have "moved s u" "accepted (conn u) = accepted (conn s) @ take v (drop n b)"
          "stream_send_buffer u = stream_send_buffer s"
          using u step by (auto simp: idle_def moved_def)
        moreover have "runs (stream_send_loop q b (u, n + v)) (\<lambda>(s', m). n + v \<le> m \<and> m \<le> length b
           \<and> moved u s' \<and> accepted (conn s') = accepted (conn u) @ take (m - (n + v)) (drop (n + v) b)
           \<and> stream_send_buffer s' = stream_send_buffer u)"
          using step True by (intro less.hyps) auto
        moreover have "take v (drop n b) @ take (m - (n + v)) (drop (n + v) b) = take (m - n) (drop n b)"
          if "n + v \<le> m" for m
          using that take_prefix_drop[of v "m - n" "drop n b"] take_add[of v "m - n - v" "drop n b"]
          by (simp add: add.commute)
        ultimately show "runs (stream_send_loop q b st) (\<lambda>(s', m). n \<le> m \<and> m \<le> length b
           \<and> moved s s' \<and> accepted (conn s') = accepted (conn s) @ take (m - n) (drop n b)
           \<and> stream_send_buffer s' = stream_send_buffer s)"
          unfolding st by (elim runs_weaken) (auto intro: moved_trans)
      qed
      then show ?thesis using send Inr True by (subst stream_send_loop.simps) simp
    qed
  next
    case False
    then show ?thesis using less.prems by (subst stream_send_loop.simps) simp
  qed
qed

lemma stream_send_loop_blocked:
  assumes "blocked (conn s)"
  shows "runs (stream_send_loop q b (s, 0)) (\<lambda>(s', m). m = 0 \<and> idle s s')"
proof (cases "b = []")
  case False
  obtain c where send: "qc_stream_send q DEFAULT_CLIENT_BI_STREAM_ID b False (conn s) = (Inl Q_Done, c)"
    using assms False unfolding blocked_def by (metis prod.collapse)
  then show ?thesis
    using False stream_send_none[OF send] by (subst stream_send_loop.simps) (simp add: idle_conn)
qed (subst stream_send_loop.simps, simp)

definition extended :: "bytes \<Rightarrow> 'c quic_state \<Rightarrow> 'c quic_state \<Rightarrow> bool" where
  "extended b s s' \<longleftrightarrow> moved s s' \<and> outgoing s' = outgoing s @ b
     \<and> sb_inv (stream_send_buffer s')
     \<and> capacity (stream_send_buffer s') = capacity (stream_send_buffer s)"

lemma flushed_extended: "flushed s t \<Longrightarrow> extended b t u \<Longrightarrow> extended b s u"
  by (auto simp: flushed_def extended_def intro: moved_trans)

lemma flushed_iff: "flushed s s' \<longleftrightarrow> extended [] s s'"
  by (simp add: flushed_def extended_def)

lemma keep_unsent_runs:
  assumes inv: "sb_inv (stream_send_buffer s)" and le: "n \<le> length b"
    and room: "length (sb_bytes (stream_send_buffer s)) < length b \<Longrightarrow>
      length b \<le> capacity (stream_send_buffer s) - length (sb_bytes (stream_send_buffer s))"
  shows "runs (keep_unsent b n s) (extended (drop n b) s)"
proof (cases "n = length b")
  case False
  obtain buf where make: "sb_make_room (stream_send_buffer s) (length b) = Inr (Inr buf)"
    and buf: "sb_inv buf" "sb_bytes buf = sb_bytes (stream_send_buffer s)"
      "capacity buf = capacity (stream_send_buffer s)"
    using sb_make_room_fits[OF inv room] by metis
  show ?thesis
  proof (cases "length (drop n b) \<le> sb_room buf")
    case True
    obtain buf' where "sb_push_slice buf (drop n b) = Inr buf'" "sb_inv buf'"
      "sb_bytes buf' = sb_bytes buf @ drop n b" "capacity buf' = capacity buf"
      using sb_push_slice_spec[OF buf(1) True] by metis
    then show ?thesis
      using make buf le False by (simp add: keep_unsent_def extended_def outgoing_def moved_def)
  next
    case full: False
    then show ?thesis
      using make buf(1) le \<open>n \<noteq> length b\<close> sb_push_slice_full[OF buf(1), of "drop n b"]
      by (simp add: keep_unsent_def)
  qed
qed (simp add: keep_unsent_def extended_def outgoing_def inv)

lemma send_fresh_runs:
  assumes inv: "sb_inv (stream_send_buffer s)"
    and room: "length (sb_bytes (stream_send_buffer s)) < length b \<Longrightarrow>
      length b \<le> capacity (stream_send_buffer s) - length (sb_bytes (stream_send_buffer s))"
    and fifo: "sb_bytes (stream_send_buffer s) = [] \<or> blocked (conn s)"
  shows "runs (send_fresh q b s) (extended b s)"
proof -
  have "runs (stream_send_loop q b (s, 0)) (\<lambda>(t, m). m \<le> length b \<and> moved s t
      \<and> accepted (conn t) @ sb_bytes (stream_send_buffer s)
          = accepted (conn s) @ sb_bytes (stream_send_buffer s) @ take m b
      \<and> stream_send_buffer t = stream_send_buffer s)"
  proof (cases "sb_bytes (stream_send_buffer s) = []")
    case True
    then show ?thesis
      using stream_send_loop_runs[of 0 b s] by (auto elim!: runs_weaken)
  next
    case False
    then show ?thesis
      using stream_send_loop_blocked[of s b] fifo by (auto elim!: runs_weaken simp: idle_def)
  qed
  then show ?thesis
  proof (cases rule: runsE)
    case (1 st)
    obtain t m where st: "st = (t, m)" by (cases st)
    with 1 have t: "m \<le> length b" "moved s t" "stream_send_buffer t = stream_send_buffer s"
      "outgoing t = outgoing s @ take m b"
      by (auto simp: outgoing_def)
    have "runs (keep_unsent b m t) (extended (drop m b) t)"
      using keep_unsent_runs[of t m b] t inv room by simp
    then have "runs (keep_unsent b m t) (extended b s)"
      by (rule runs_weaken) (use t in \<open>auto simp: extended_def intro: moved_trans\<close>)
    then show ?thesis using 1 st by (simp add: send_fresh_def)
  next
    case (2 e st)
    then show ?thesis by (cases st) (simp add: send_fresh_def)
  qed
qed

definition dropped :: "bytes \<Rightarrow> 'c quic_state \<Rightarrow> 'c quic_state \<Rightarrow> bool" where
  "dropped b s s' \<longleftrightarrow> flushed s s' \<and> length (sb_bytes (stream_send_buffer s')) < length b
     \<and> capacity (stream_send_buffer s') < length b + length (sb_bytes (stream_send_buffer s'))"

lemma on_send_data_runs:
  assumes inv: "sb_inv (stream_send_buffer s)"
  shows "runs (on_send_data q b s) (\<lambda>s'. extended b s s' \<and> length b \<le> capacity (stream_send_buffer s)
    \<or> dropped b s s')"
  unfolding on_send_data_def
proof (rule runs_then[OF flush_loop_runs[OF inv]])
  fix t assume t: "flushed s t \<and> (sb_bytes (stream_send_buffer t) = [] \<or> blocked (conn t))"
  then have inv_t: "sb_inv (stream_send_buffer t)" by (simp add: flushed_def)
  obtain r buf where buf: "sb_reuse_if (stream_send_buffer t) = Inr (r, buf)" "sb_inv buf"
    "sb_bytes buf = sb_bytes (stream_send_buffer t)"
    "capacity buf = capacity (stream_send_buffer t)"
    using sb_reuse_if_spec[OF inv_t] by metis
  let ?u = "t\<lparr>stream_send_buffer := buf\<rparr>"
  let ?Q = "\<lambda>s'. extended b s s' \<and> length b \<le> capacity (stream_send_buffer s) \<or> dropped b s s'"
  have cap: "capacity (stream_send_buffer t) = capacity (stream_send_buffer s)"
    using t by (simp add: flushed_def)
  have u: "flushed s ?u" using t buf by (auto simp: flushed_def outgoing_def moved_def)
  have "runs (case sb_make_room buf (length b) of
      Inl e \<Rightarrow> Some (Break Panic ?u)
    | Inr (Inl max_len) \<Rightarrow> Some (Continue ?u)
    | Inr (Inr buf') \<Rightarrow> send_fresh q b (?u\<lparr>stream_send_buffer := buf'\<rparr>)) ?Q"
  proof (cases rule: sb_make_room_cases[OF buf(2), of "length b"])
    case 1
    then show ?thesis using u by (auto simp: dropped_def)
  next
    case (2 buf')
    let ?v = "?u\<lparr>stream_send_buffer := buf'\<rparr>"
    have v: "flushed s ?v" using u 2 by (auto simp: flushed_def outgoing_def moved_def)
    have "length b \<le> capacity buf' - length (sb_bytes buf')" if "length (sb_bytes buf') < length b"
      using 2 that sb_make_room_full[OF buf(2), of "length b"] by auto
    moreover from this have "length b \<le> capacity (stream_send_buffer s)"
      using sb_invD[of buf'] length_sb_bytes[of buf'] 2 buf(4) cap by fastforce
    ultimately have "length b \<le> capacity (stream_send_buffer s)"
      and "runs (send_fresh q b ?v) (extended b ?v)"
      using send_fresh_runs[of ?v b] 2 buf t by simp_all
    then have "runs (send_fresh q b ?v) ?Q"
      by (auto elim!: runs_weaken intro: flushed_extended[OF v])
    then show ?thesis using 2(1) by simp
  qed
  then show "runs (case sb_reuse_if (stream_send_buffer t) of
        Inl e \<Rightarrow> Some (Break Panic t)
      | Inr (_, buf) \<Rightarrow>
          let s = t\<lparr>stream_send_buffer := buf\<rparr> in
          (case sb_make_room buf (length b) of
             Inl e \<Rightarrow> Some (Break Panic s)
           | Inr (Inl max_len) \<Rightarrow> Some (Continue s)
           | Inr (Inr buf') \<Rightarrow> send_fresh q b (s\<lparr>stream_send_buffer := buf'\<rparr>))) ?Q"
    using buf(1) by (simp add: Let_def)
qed

lemma timeout_runs:
  "runs (conn_send_loop q w (s\<lparr>conn := qc_on_timeout q (conn s)\<rparr>)) (idle s)"
  using conn_send_loop_runs[of w "s\<lparr>conn := qc_on_timeout q (conn s)\<rparr>"]
    idle_conn[of "qc_on_timeout q (conn s)" s] on_timeout[of "conn s"]
  by (auto elim!: runs_weaken intro: idle_trans)

lemma on_tick_runs:
  assumes "sb_inv (stream_send_buffer s)"
  shows "runs (on_tick q s) (flushed s)"
  unfolding on_tick_def
proof (rule runs_then[OF flush_loop_runs[OF assms]])
  fix t assume t: "flushed s t \<and> (sb_bytes (stream_send_buffer t) = [] \<or> blocked (conn t))"
  have "runs (if qc_timeout q (conn t) = Some 0
        then conn_send_loop q False (t\<lparr>conn := qc_on_timeout q (conn t)\<rparr>)
        else Some (Continue t)) (idle t)"
    using timeout_runs by simp
  then show "runs (run_then (if qc_timeout q (conn t) = Some 0
        then conn_send_loop q False (t\<lparr>conn := qc_on_timeout q (conn t)\<rparr>)
        else Some (Continue t)) (\<lambda>s.
       if qc_is_timed_out q (conn s) then Some (Break (Err ConnTimedOut) s)
       else if qc_is_closed q (conn s) then Some (Break (Err ConnClosed) s)
       else Some (Continue s))) (flushed s)"
  proof (rule runs_then)
    fix u assume "idle t u"
    with t have "flushed s u" using idle_flushed flushed_trans by (metis flushed_def)
    then show "runs (if qc_is_timed_out q (conn u) then Some (Break (Err ConnTimedOut) u)
       else if qc_is_closed q (conn u) then Some (Break (Err ConnClosed) u)
       else Some (Continue u)) (flushed s)" by simp
  qed
qed

section \<open>The whole loop\<close>

lemma quic_step_runs:
  assumes "sb_inv (stream_send_buffer s)"
  shows "runs (quic_step q ev s)
     (\<lambda>s'. \<exists>kept. subseq kept (sent_data [ev]) \<and> extended (concat kept) s s'
        \<and> (\<forall>b \<in> set kept. length b \<le> capacity (stream_send_buffer s)))"
proof (cases ev)
  case (Send_Data b)
  then show ?thesis
    using on_send_data_runs[OF assms, of b]
    by (auto elim!: runs_weaken simp: dropped_def flushed_iff intro: exI[of _ "[b]"] exI[of _ "[]"])
next
  case (Udp_Data b)
  then show ?thesis
    using on_udp_data_runs[of b s] idle_flushed[OF _ assms]
    by (auto elim!: runs_weaken simp: flushed_iff)
next
  case Tick
  then show ?thesis
    using on_tick_runs[OF assms] by (auto elim!: runs_weaken simp: flushed_iff)
next
  case Timeout_Signal
  then show ?thesis
    using timeout_runs[of False s] idle_flushed[OF _ assms]
    by (auto elim!: runs_weaken simp: flushed_iff)
next
  case Timeout_Lagged
  then show ?thesis
    using timeout_runs[of False s] idle_flushed[OF _ assms]
    by (auto elim!: runs_weaken simp: flushed_iff)
qed simp_all

lemma sent_data_Cons: "sent_data (ev # evs) = sent_data [ev] @ sent_data evs"
  by (cases ev) simp_all

lemma extended_trans: "extended a s t \<Longrightarrow> extended b t u \<Longrightarrow> extended (a @ b) s u"
  by (auto simp: extended_def intro: moved_trans)

lemma quic_process_loop_runs:
  assumes "sb_inv (stream_send_buffer s)"
  shows "runs (quic_process_loop q evs s)
     (\<lambda>s'. \<exists>kept. subseq kept (sent_data evs) \<and> extended (concat kept) s s'
        \<and> (\<forall>b \<in> set kept. length b \<le> capacity (stream_send_buffer s)))"
  using assms
proof (induction evs arbitrary: s)
  case Nil
  then show ?case by (auto simp: extended_def intro: exI[of _ "[]"])
next
  case (Cons ev evs)
  show ?case
    unfolding quic_process_loop.simps
  proof (rule runs_then[OF quic_step_runs[OF Cons.prems]])
    fix t assume "\<exists>kept. subseq kept (sent_data [ev]) \<and> extended (concat kept) s t
      \<and> (\<forall>b \<in> set kept. length b \<le> capacity (stream_send_buffer s))"
    then obtain k1 where k1: "subseq k1 (sent_data [ev])" "extended (concat k1) s t"
      "\<forall>b \<in> set k1. length b \<le> capacity (stream_send_buffer s)" by blast
    then have t: "sb_inv (stream_send_buffer t)"
      "capacity (stream_send_buffer t) = capacity (stream_send_buffer s)"
      by (simp_all add: extended_def)
    show "runs (quic_process_loop q evs t) (\<lambda>s'. \<exists>kept. subseq kept (sent_data (ev # evs))
        \<and> extended (concat kept) s s'
        \<and> (\<forall>b \<in> set kept. length b \<le> capacity (stream_send_buffer s)))"
    proof (rule runs_weaken[OF Cons.IH[OF t(1)]])
      fix u assume "\<exists>kept. subseq kept (sent_data evs) \<and> extended (concat kept) t u
        \<and> (\<forall>b \<in> set kept. length b \<le> capacity (stream_send_buffer t))"
      then obtain k2 where k2: "subseq k2 (sent_data evs)" "extended (concat k2) t u"
        "\<forall>b \<in> set k2. length b \<le> capacity (stream_send_buffer s)" using t by auto
      with k1 have "subseq (k1 @ k2) (sent_data (ev # evs))" "extended (concat (k1 @ k2)) s u"
        by (auto simp: sent_data_Cons[of ev evs] intro: list_emb_append_mono extended_trans)
      moreover have "\<forall>b \<in> set (k1 @ k2). length b \<le> capacity (stream_send_buffer s)"
        using k1(3) k2(3) by auto
      ultimately show "\<exists>kept. subseq kept (sent_data (ev # evs)) \<and> extended (concat kept) s u
        \<and> (\<forall>b \<in> set kept. length b \<le> capacity (stream_send_buffer s))" by blast
    qed
  qed
qed

end

end
