(* ===== verification/Event_Loops.thy ===== *)
theory Event_Loops
  imports Link_Prelude "HOL-Library.AList"
begin

text \<open>
  Two interfaces that the client and the server share.  \<open>watchdog\<close>: a loop with a timer that
  only received packets push back; its client lemma is that a silent peer ends the loop.
  \<open>registry\<close>: the \<open>HashMap\<close> contract on which the routing of replies, broadcasts and datagrams
  rests; its client lemma says what a sequence of insertions and removals leaves under a key.
\<close>

section \<open>Watchdog\<close>

locale watchdog =
  fixes step :: "'ev \<Rightarrow> 's \<Rightarrow> ('e, 's) ctl"
    and refreshes :: "'ev \<Rightarrow> bool"
    and tick_at :: "nat \<Rightarrow> 'ev \<Rightarrow> bool"
    and overdue :: "nat \<Rightarrow> 's \<Rightarrow> bool"
  assumes quiet: "step ev s = Continue t \<Longrightarrow> \<not> refreshes ev \<Longrightarrow> overdue now t = overdue now s"
    and bites: "tick_at now ev \<Longrightarrow> overdue now s \<Longrightarrow> step ev s \<noteq> Continue t"
begin

lemma silent_run:
  assumes "run_loop step evs s = Continue t" and "\<forall>ev \<in> set evs. \<not> refreshes ev"
    and "ev \<in> set evs" and "tick_at now ev"
  shows "\<not> overdue now s"
  using assms
proof (induction evs arbitrary: s)
  case (Cons e evs)
  then obtain u where u: "step e s = Continue u" "run_loop step evs u = Continue t"
    by (auto simp: flow_simps)
  show ?case
  proof (cases "ev = e")
    case True
    then show ?thesis using u(1) bites[OF assms(4)] by auto
  next
    case False
    then show ?thesis using Cons.IH[OF u(2)] Cons.prems quiet[OF u(1)] by simp
  qed
qed simp

lemma silence_ends:
  assumes "\<forall>ev \<in> set evs. \<not> refreshes ev" and "ev \<in> set evs" and "tick_at now ev"
    and "overdue now s"
  shows "\<exists>e t. run_loop step evs s = Break e t"
  using silent_run[OF _ assms(1-3)] assms(4) by (cases "run_loop step evs s") auto

end

section \<open>Registry\<close>

datatype ('k, 'v) reg_op = Reg_Insert 'k 'v | Reg_Remove 'k

fun reg_key :: "('k, 'v) reg_op \<Rightarrow> 'k" where
  "reg_key (Reg_Insert k v) = k"
| "reg_key (Reg_Remove k) = k"

fun reg_value :: "('k, 'v) reg_op \<Rightarrow> 'v option" where
  "reg_value (Reg_Insert k v) = Some v"
| "reg_value (Reg_Remove k) = None"

locale registry =
  fixes lookup :: "'m \<Rightarrow> 'k \<Rightarrow> 'v option"
    and insert :: "'k \<Rightarrow> 'v \<Rightarrow> 'm \<Rightarrow> 'm"
    and remove :: "'k \<Rightarrow> 'm \<Rightarrow> 'm"
  assumes lookup_insert: "lookup (insert k v m) j = (if j = k then Some v else lookup m j)"
    and lookup_remove: "lookup (remove k m) j = (if j = k then None else lookup m j)"
begin

fun reg_apply :: "('k, 'v) reg_op \<Rightarrow> 'm \<Rightarrow> 'm" where
  "reg_apply (Reg_Insert k v) m = insert k v m"
| "reg_apply (Reg_Remove k) m = remove k m"

lemma lookup_apply: "lookup (reg_apply op m) j = (if j = reg_key op then reg_value op else lookup m j)"
  by (cases op) (simp_all add: lookup_insert lookup_remove)

text \<open>The last operation on a key decides; a key that no operation names keeps its value.\<close>

lemma lookup_run:
  "lookup (fold reg_apply ops m) k =
     (case find (\<lambda>op. reg_key op = k) (rev ops) of Some op \<Rightarrow> reg_value op | None \<Rightarrow> lookup m k)"
  by (induction ops rule: rev_induct) (simp_all add: lookup_apply)

lemma lookup_untouched:
  "\<forall>op \<in> set ops. reg_key op \<noteq> k \<Longrightarrow> lookup (fold reg_apply ops m) k = lookup m k"
  by (induction ops arbitrary: m) (auto simp: lookup_apply)

end

interpretation map_registry: registry "\<lambda>m. m" "\<lambda>k v m. m(k \<mapsto> v)" "\<lambda>k m. m(k := None)"
  by unfold_locales simp_all

interpretation alist_registry: registry map_of AList.update AList.delete
  by unfold_locales (simp_all add: update_conv delete_conv')

end
