(* ===== verification/Packets.thy ===== *)
theory Packets
  imports Link_Prelude
begin

unbundle bit_operations_syntax

text \<open>
  The data model of \<open>link/src/packets.rs\<close> and the messages of \<open>link/protos/control.proto\<close>:
  commands, message types and response states with their wire discriminants, the three
  packet kinds and their header-only forms, and the constructors of \<open>impl Packet\<close>.

  The protobuf encoders and decoders are generated by \<open>prost\<close> at build time; they are the
  fields of the parameter record \<open>prost\<close>.  A decoder that fails returns \<open>None\<close>.
\<close>

section \<open>Discriminants\<close>

datatype command =
  Auth | Heartbeat | Close | Reconnect
| CmdSubAllType | CmdUnSubAllType | CmdSubOrderBook | CmdUnSubOrderBook
| CmdSubTrades | CmdSubBrokers | CmdSubDepth | CmdUnSubDepth
| CmdSubMarketInfo | CmdUnSubBrokers

fun command_id :: "command \<Rightarrow> nat" where
  "command_id Auth = 0"
| "command_id Heartbeat = 1"
| "command_id Close = 2"
| "command_id Reconnect = 3"
| "command_id CmdSubAllType = 4"
| "command_id CmdUnSubAllType = 5"
| "command_id CmdSubOrderBook = 6"
| "command_id CmdUnSubOrderBook = 7"
| "command_id CmdSubTrades = 8"
| "command_id CmdSubBrokers = 9"
| "command_id CmdSubDepth = 10"
| "command_id CmdUnSubDepth = 11"
| "command_id CmdSubMarketInfo = 12"
| "command_id CmdUnSubBrokers = 13"

datatype msg_type =
  Msg_Unknown | Msg_Snapshot | Msg_Trade | Msg_Depths
| Msg_Brokers | Msg_MarketInfo | Msg_OrderBook | Msg_Kline

fun msg_type_id :: "msg_type \<Rightarrow> nat" where
  "msg_type_id Msg_Unknown = 0"
| "msg_type_id Msg_Snapshot = 1"
| "msg_type_id Msg_Trade = 2"
| "msg_type_id Msg_Depths = 3"
| "msg_type_id Msg_Brokers = 4"
| "msg_type_id Msg_MarketInfo = 5"
| "msg_type_id Msg_OrderBook = 6"
| "msg_type_id Msg_Kline = 7"

datatype response_status =
  Success | ServerTimeout | ClientTimeout | BadRequest | BadResponse
| Unauthenticated | PermissionDenied | ServerInternalError | ClientInternalError

fun response_status_id :: "response_status \<Rightarrow> nat" where
  "response_status_id Success = 0"
| "response_status_id ServerTimeout = 1"
| "response_status_id ClientTimeout = 2"
| "response_status_id BadRequest = 3"
| "response_status_id BadResponse = 4"
| "response_status_id Unauthenticated = 5"
| "response_status_id PermissionDenied = 6"
| "response_status_id ServerInternalError = 7"
| "response_status_id ClientInternalError = 8"

text \<open>The variants in declaration order; a discriminant read from the wire selects one.\<close>

definition all_commands :: "command list" where
  "all_commands =
     [Auth, Heartbeat, Close, Reconnect, CmdSubAllType, CmdUnSubAllType, CmdSubOrderBook,
      CmdUnSubOrderBook, CmdSubTrades, CmdSubBrokers, CmdSubDepth, CmdUnSubDepth,
      CmdSubMarketInfo, CmdUnSubBrokers]"

definition all_msg_types :: "msg_type list" where
  "all_msg_types =
     [Msg_Unknown, Msg_Snapshot, Msg_Trade, Msg_Depths, Msg_Brokers, Msg_MarketInfo,
      Msg_OrderBook, Msg_Kline]"

definition all_statuses :: "response_status list" where
  "all_statuses =
     [Success, ServerTimeout, ClientTimeout, BadRequest, BadResponse, Unauthenticated,
      PermissionDenied, ServerInternalError, ClientInternalError]"

definition command_of_id :: "nat \<Rightarrow> command option" where
  "command_of_id n = find (\<lambda>c. command_id c = n) all_commands"

definition msg_type_of_id :: "nat \<Rightarrow> msg_type option" where
  "msg_type_of_id n = find (\<lambda>t. msg_type_id t = n) all_msg_types"

definition status_of_id :: "nat \<Rightarrow> response_status option" where
  "status_of_id n = find (\<lambda>t. response_status_id t = n) all_statuses"

lemma find_keyed:
  assumes "inj f" and "x \<in> set xs"
  shows "find (\<lambda>y. f y = f x) xs = Some x"
  using assms by (induction xs) (auto dest: injD)

lemma find_keyed_Some: "find (\<lambda>y. f y = n) xs = Some x \<Longrightarrow> f x = n"
  by (auto simp: find_Some_iff)

lemma command_id_inj: "inj command_id"
proof (rule injI)
  fix c d assume "command_id c = command_id d"
  then show "c = d" by (cases c; cases d) simp_all
qed

lemma msg_type_id_inj: "inj msg_type_id"
proof (rule injI)
  fix c d assume "msg_type_id c = msg_type_id d"
  then show "c = d" by (cases c; cases d) simp_all
qed

lemma response_status_id_inj: "inj response_status_id"
proof (rule injI)
  fix c d assume "response_status_id c = response_status_id d"
  then show "c = d" by (cases c; cases d) simp_all
qed

lemma command_of_id_id [simp]: "command_of_id (command_id c) = Some c"
  unfolding command_of_id_def
  by (rule find_keyed[OF command_id_inj]) (cases c; simp add: all_commands_def)

lemma msg_type_of_id_id [simp]: "msg_type_of_id (msg_type_id t) = Some t"
  unfolding msg_type_of_id_def
  by (rule find_keyed[OF msg_type_id_inj]) (cases t; simp add: all_msg_types_def)

lemma status_of_id_id [simp]: "status_of_id (response_status_id t) = Some t"
  unfolding status_of_id_def
  by (rule find_keyed[OF response_status_id_inj]) (cases t; simp add: all_statuses_def)

lemma command_of_id_Some: "command_of_id n = Some c \<Longrightarrow> command_id c = n"
  unfolding command_of_id_def by (rule find_keyed_Some)

lemma msg_type_of_id_Some: "msg_type_of_id n = Some c \<Longrightarrow> msg_type_id c = n"
  unfolding msg_type_of_id_def by (rule find_keyed_Some)

lemma status_of_id_Some: "status_of_id n = Some c \<Longrightarrow> response_status_id c = n"
  unfolding status_of_id_def by (rule find_keyed_Some)

lemma command_id_bound [simp]: "command_id c < 16"
  by (cases c) simp_all

lemma msg_type_id_bound [simp]: "msg_type_id t < 256"
  by (cases t) simp_all

lemma response_status_id_bound [simp]: "response_status_id r < 256"
  by (cases r) simp_all

text \<open>The declaration order of the variants as the library's linear order.\<close>

instantiation command :: linorder
begin

definition less_eq_command :: "command \<Rightarrow> command \<Rightarrow> bool" where
  "less_eq_command c d \<longleftrightarrow> command_id c \<le> command_id d"

definition less_command :: "command \<Rightarrow> command \<Rightarrow> bool" where
  "less_command c d \<longleftrightarrow> command_id c < command_id d"

instance
  by standard
    (auto simp: less_eq_command_def less_command_def dest: injD[OF command_id_inj])

end

section \<open>Packets\<close>

record request =
  rq_reserved :: byte
  rq_command :: command
  rq_id :: u32
  rq_timeout :: byte
  rq_body_len :: u32
  rq_body :: bytes

record response =
  rs_reserved :: byte
  rs_command :: command
  rs_id :: u32
  rs_status :: response_status
  rs_body_len :: u32
  rs_body :: bytes

record push =
  ps_reserved :: byte
  ps_command :: command
  ps_msg_type :: msg_type
  ps_body_len :: u32
  ps_body :: bytes

datatype packet = Request request | Response response | Push push

record request_header =
  rqh_reserved :: byte
  rqh_command :: command
  rqh_id :: u32
  rqh_timeout :: byte
  rqh_body_len :: u32

record response_header =
  rsh_reserved :: byte
  rsh_command :: command
  rsh_id :: u32
  rsh_status :: response_status
  rsh_body_len :: u32

record push_header =
  psh_reserved :: byte
  psh_command :: command
  psh_msg_type :: msg_type
  psh_body_len :: u32

datatype packet_header =
  RequestHdr request_header | ResponseHdr response_header | PushHdr push_header

definition DEFAULT_REQUEST_TIMEOUT :: byte where "DEFAULT_REQUEST_TIMEOUT = 5"

definition REQUEST_HEADER_SIZE :: usize where "REQUEST_HEADER_SIZE = 8"

definition RESPONSE_HEADER_SIZE :: usize where "RESPONSE_HEADER_SIZE = 8"

definition PUSH_HEADER_SIZE :: usize where "PUSH_HEADER_SIZE = 5"

definition MIN_PACKET_HEADER_SIZE :: usize where "MIN_PACKET_HEADER_SIZE = 5"

lemmas header_sizes = REQUEST_HEADER_SIZE_def RESPONSE_HEADER_SIZE_def PUSH_HEADER_SIZE_def
  MIN_PACKET_HEADER_SIZE_def

definition request_id_trim :: "u32 \<Rightarrow> u32" where
  "request_id_trim i = i AND 0x00ffffff"

text \<open>\<open>body.len() as u32\<close> keeps the low 32 bits.\<close>

definition len_u32 :: "bytes \<Rightarrow> u32" where
  "len_u32 body = word_of_nat (length body)"

fun get_request_id :: "packet \<Rightarrow> u32" where
  "get_request_id (Request v) = rq_id v"
| "get_request_id (Response v) = rs_id v"
| "get_request_id (Push _) = 0"

fun total_bytes :: "packet \<Rightarrow> usize" where
  "total_bytes (Request r) = unat (rq_body_len r) + REQUEST_HEADER_SIZE"
| "total_bytes (Response r) = unat (rs_body_len r) + RESPONSE_HEADER_SIZE"
| "total_bytes (Push r) = unat (ps_body_len r) + PUSH_HEADER_SIZE"

fun need_bytes :: "packet_header \<Rightarrow> usize" where
  "need_bytes (RequestHdr r) = unat (rqh_body_len r) + REQUEST_HEADER_SIZE"
| "need_bytes (ResponseHdr r) = unat (rsh_body_len r) + RESPONSE_HEADER_SIZE"
| "need_bytes (PushHdr r) = unat (psh_body_len r) + PUSH_HEADER_SIZE"

lemma total_bytes_ge: "MIN_PACKET_HEADER_SIZE \<le> total_bytes p"
  by (cases p) (auto simp: header_sizes)

lemma total_bytes_pos: "0 < total_bytes p"
  by (cases p) (auto simp: header_sizes)

lemma minus_total_bytes_less: "total_bytes p \<le> n \<Longrightarrow> n - total_bytes p < n"
  using total_bytes_pos[of p] by arith

section \<open>Control messages\<close>

record auth_info =
  user_name :: string
  password :: string
  client_name :: string

definition default_auth_info :: auth_info where
  "default_auth_info = \<lparr>user_name = [], password = [], client_name = []\<rparr>"

record auth_request = ar_auth_info :: "auth_info option"

record heartbeat = hb_timestamp :: i64

record subscribe_request =
  sub_all :: bool
  counter_ids :: "string list"
  span_index :: i64

record link_error =
  le_code :: u64
  le_msg :: string

record subscribe_response =
  sub_success :: "string list"
  sub_failed :: "string list"

record unsubscribe_response =
  unsub_success :: "string list"
  unsub_failed :: "string list"

record auth_response = arp_auth_info :: "auth_info option"

record prost =
  enc_auth_request :: "auth_request \<Rightarrow> bytes"
  dec_auth_request :: "bytes \<Rightarrow> auth_request option"
  enc_heartbeat :: "heartbeat \<Rightarrow> bytes"
  dec_heartbeat :: "bytes \<Rightarrow> heartbeat option"
  enc_subscribe_request :: "subscribe_request \<Rightarrow> bytes"
  dec_link_error :: "bytes \<Rightarrow> link_error option"
  dec_subscribe_response :: "bytes \<Rightarrow> subscribe_response option"
  dec_unsubscribe_response :: "bytes \<Rightarrow> unsubscribe_response option"
  dec_auth_response :: "bytes \<Rightarrow> auth_response option"

section \<open>Constructors\<close>

definition new_request :: "command \<Rightarrow> u32 \<Rightarrow> bytes \<Rightarrow> packet" where
  "new_request cmd i body = Request
     \<lparr>rq_reserved = 0, rq_command = cmd, rq_id = request_id_trim i,
      rq_timeout = DEFAULT_REQUEST_TIMEOUT, rq_body_len = len_u32 body, rq_body = body\<rparr>"

definition new_response_from :: "request \<Rightarrow> response_status \<Rightarrow> bytes \<Rightarrow> packet" where
  "new_response_from req status body = Response
     \<lparr>rs_reserved = 0, rs_command = rq_command req, rs_id = rq_id req, rs_status = status,
      rs_body_len = len_u32 body, rs_body = body\<rparr>"

definition new_auth :: "prost \<Rightarrow> u32 \<Rightarrow> string \<Rightarrow> string \<Rightarrow> string \<Rightarrow> packet" where
  "new_auth pb i username pass cname =
     (let auth = enc_auth_request pb
            \<lparr>ar_auth_info = Some \<lparr>user_name = username, password = pass, client_name = cname\<rparr>\<rparr>
      in Request \<lparr>rq_reserved = 0, rq_command = Auth, rq_id = request_id_trim i,
           rq_timeout = DEFAULT_REQUEST_TIMEOUT, rq_body_len = len_u32 auth, rq_body = auth\<rparr>)"

definition new_subscribe :: "prost \<Rightarrow> command \<Rightarrow> u32 \<Rightarrow> bool \<Rightarrow> i64 \<Rightarrow> packet" where
  "new_subscribe pb cmd i sub_all_flag span_idx =
     (let sub = enc_subscribe_request pb
            \<lparr>sub_all = sub_all_flag, counter_ids = [], span_index = span_idx\<rparr>
      in Request \<lparr>rq_reserved = 0, rq_command = cmd, rq_id = request_id_trim i,
           rq_timeout = DEFAULT_REQUEST_TIMEOUT, rq_body_len = len_u32 sub, rq_body = sub\<rparr>)"

text \<open>The clock reading \<open>unix_micros()\<close> is the argument \<open>now\<close>.\<close>

definition new_heartbeat :: "prost \<Rightarrow> i64 \<Rightarrow> u32 \<Rightarrow> packet" where
  "new_heartbeat pb now i =
     (let raw_body = enc_heartbeat pb \<lparr>hb_timestamp = now\<rparr>
      in Request \<lparr>rq_reserved = 0, rq_command = Heartbeat, rq_id = request_id_trim i,
           rq_timeout = DEFAULT_REQUEST_TIMEOUT, rq_body_len = len_u32 raw_body,
           rq_body = raw_body\<rparr>)"

definition new_heartbeat_response :: "request \<Rightarrow> packet" where
  "new_heartbeat_response req = Response
     \<lparr>rs_reserved = 0, rs_command = Heartbeat, rs_id = rq_id req, rs_status = Success,
      rs_body_len = rq_body_len req, rs_body = rq_body req\<rparr>"

definition response_new :: "command \<Rightarrow> u32 \<Rightarrow> response_status \<Rightarrow> bytes \<Rightarrow> response" where
  "response_new cmd i status body =
     \<lparr>rs_reserved = 0, rs_command = cmd, rs_id = i, rs_status = status,
      rs_body_len = len_u32 body, rs_body = body\<rparr>"

section \<open>Well-formed packets\<close>

text \<open>
  The packets the wire format can carry: the reserved bits fit 2 bits, the request id and
  the body length fit 24 bits, and the length field is the length of the body.
\<close>

definition wf_body :: "u32 \<Rightarrow> bytes \<Rightarrow> bool" where
  "wf_body n body \<longleftrightarrow> unat n = length body \<and> length body < 2 ^ 24"

fun wf_packet :: "packet \<Rightarrow> bool" where
  "wf_packet (Request r) \<longleftrightarrow>
     unat (rq_reserved r) < 4 \<and> unat (rq_id r) < 2 ^ 24 \<and> wf_body (rq_body_len r) (rq_body r)"
| "wf_packet (Response r) \<longleftrightarrow>
     unat (rs_reserved r) < 4 \<and> unat (rs_id r) < 2 ^ 24 \<and> wf_body (rs_body_len r) (rs_body r)"
| "wf_packet (Push r) \<longleftrightarrow> unat (ps_reserved r) < 4 \<and> wf_body (ps_body_len r) (ps_body r)"

lemma request_id_trim_mod: "unat (request_id_trim i) = unat i mod 2 ^ 24"
proof -
  have "request_id_trim i = take_bit 24 i"
    by (simp add: request_id_trim_def take_bit_eq_mask mask_eq_exp_minus_1)
  then have "unat (request_id_trim i) = take_bit 24 (unat i)"
    by (simp only: unsigned_take_bit_eq)
  then show ?thesis by (simp only: take_bit_eq_mod)
qed

lemma request_id_trim_bound: "unat (request_id_trim i) < 2 ^ 24"
  by (simp add: request_id_trim_mod)

lemma unat_len_u32: "length body < 2 ^ 32 \<Longrightarrow> unat (len_u32 body) = length body"
  by (simp add: len_u32_def unat_of_nat)

lemma word_of_unat: "unat n = l \<Longrightarrow> word_of_nat l = n"
  by auto

lemma wf_body_len_u32: "length body < 2 ^ 24 \<Longrightarrow> wf_body (len_u32 body) body"
  by (simp add: wf_body_def unat_len_u32)

end
