(* ===== verification/Link_Config.thy ===== *)
theory Link_Config
  imports Packets
begin

text \<open>
  \<open>link/src/config.rs\<close>: the constants, the configuration structs with their defaults, and the
  translation of \<open>QuicheConfig\<close> into calls of the setters of \<open>quiche::Config\<close>.  Durations are in
  nanoseconds.  Reading a configuration file is the work of serde; what it gives for a missing
  field is the field's default, modelled by the \<open>default_\<close> definitions.
\<close>

section \<open>Constants\<close>

definition DEFAULT_MAX_PACKET_SIZE :: usize where
  "DEFAULT_MAX_PACKET_SIZE = 2 ^ 23 + 8"

definition DEFAULT_MAX_STREAM_WINDOW :: u64 where
  "DEFAULT_MAX_STREAM_WINDOW = 64 * 2 ^ 20"

definition DEFAULT_MAX_CONNECTION_WINDOW :: u64 where
  "DEFAULT_MAX_CONNECTION_WINDOW = 64 * 2 ^ 20"

definition DEFAULT_MAX_IDLE_TIMEOUT :: u64 where
  "DEFAULT_MAX_IDLE_TIMEOUT = 10000"

definition DEFAULT_MAX_DATA_BUF_SIZE :: u64 where
  "DEFAULT_MAX_DATA_BUF_SIZE = 64 * 2 ^ 20"

definition DEFAULT_MAX_STREAM_CONN :: u64 where
  "DEFAULT_MAX_STREAM_CONN = 100"

definition DEFAULT_MAX_UDP_PACKET_SIZE :: usize where
  "DEFAULT_MAX_UDP_PACKET_SIZE = 2 ^ 16 - 1"

definition DEFAULT_ACTIVE_CONNECTION_ID_LIMIT :: u64 where
  "DEFAULT_ACTIVE_CONNECTION_ID_LIMIT = 8"

definition DEFAULT_MAX_ACK_DELAY :: u64 where
  "DEFAULT_MAX_ACK_DELAY = 25"

definition DEFAULT_MAX_SEND_UDP_PAYLOAD_SIZE :: usize where
  "DEFAULT_MAX_SEND_UDP_PAYLOAD_SIZE = 1200"

lemmas config_constants = DEFAULT_MAX_PACKET_SIZE_def DEFAULT_MAX_STREAM_WINDOW_def
  DEFAULT_MAX_CONNECTION_WINDOW_def DEFAULT_MAX_IDLE_TIMEOUT_def DEFAULT_MAX_DATA_BUF_SIZE_def
  DEFAULT_MAX_STREAM_CONN_def DEFAULT_MAX_UDP_PACKET_SIZE_def
  DEFAULT_ACTIVE_CONNECTION_ID_LIMIT_def DEFAULT_MAX_ACK_DELAY_def
  DEFAULT_MAX_SEND_UDP_PAYLOAD_SIZE_def

type_synonym duration = nat

abbreviation from_millis :: "nat \<Rightarrow> duration" where
  "from_millis n \<equiv> n * 1000000"

abbreviation from_secs :: "nat \<Rightarrow> duration" where
  "from_secs n \<equiv> n * 1000000000"

section \<open>Structs and defaults\<close>

record healthy_config =
  heartbeat_interval :: duration
  heartbeat_timeout :: duration
  auth_timeout :: duration
  retry_times :: u32
  retry_interval :: duration

definition default_heartbeat_interval :: duration where
  "default_heartbeat_interval = from_millis 500"

definition default_heartbeat_timeout :: duration where
  "default_heartbeat_timeout = from_secs 3"

definition default_auth_timeout :: duration where
  "default_auth_timeout = from_secs 10"

definition default_retry_interval :: duration where
  "default_retry_interval = from_secs 3"

lemmas default_durations [simp] = default_heartbeat_interval_def default_heartbeat_timeout_def
  default_auth_timeout_def default_retry_interval_def

definition default_healthy_config :: healthy_config where
  "default_healthy_config =
     \<lparr>heartbeat_interval = default_heartbeat_interval,
      heartbeat_timeout = default_heartbeat_timeout, auth_timeout = default_auth_timeout,
      retry_times = 0, retry_interval = default_retry_interval\<rparr>"

record backup_config =
  bk_addr :: string
  failover_threshold :: u32

definition default_failover_threshold :: u32 where
  "default_failover_threshold = 3"

record subscribe =
  sub_cmd :: command
  sub_all_flag :: bool
  sub_span_index :: i64

datatype multi_addr_mode = OnlyOne | ColdBackup | HotBackup

text \<open>The client's name defaults to the environment variable \<open>POD_NAME\<close>.\<close>

definition pod_name :: "(string \<Rightarrow> string option) \<Rightarrow> string" where
  "pod_name env = (case env ''POD_NAME'' of Some v \<Rightarrow> v | None \<Rightarrow> [])"

record buffer_config =
  max_udp_read_size :: usize
  max_udp_write_size :: usize
  max_stream_read_size :: usize
  max_stream_send_size :: usize
  peer_conn_init_size :: usize

definition default_buffer_config :: buffer_config where
  "default_buffer_config =
     \<lparr>max_udp_read_size = DEFAULT_MAX_UDP_PACKET_SIZE,
      max_udp_write_size = DEFAULT_MAX_UDP_PACKET_SIZE,
      max_stream_read_size = DEFAULT_MAX_PACKET_SIZE,
      max_stream_send_size = DEFAULT_MAX_PACKET_SIZE, peer_conn_init_size = 64\<rparr>"

record channel_config =
  recv_chan_size :: usize
  send_chan_size :: usize
  signal_chan_size :: usize
  process_chan_size :: usize

definition default_channel_config :: channel_config where
  "default_channel_config =
     \<lparr>recv_chan_size = 8192, send_chan_size = 8192, signal_chan_size = 1024,
      process_chan_size = 8192\<rparr>"

record timeout_config =
  tc_request :: duration
  tc_response :: duration
  tc_idle_interval :: duration
  tc_handshake_timeout :: duration

definition default_timeout_config :: timeout_config where
  "default_timeout_config =
     \<lparr>tc_request = from_secs 3, tc_response = from_secs 5,
      tc_idle_interval = from_millis (unat DEFAULT_MAX_IDLE_TIMEOUT),
      tc_handshake_timeout = from_secs 3\<rparr>"

record quiche_config =
  application_protos :: "string list option"
  enable_pacing :: "bool option"
  discover_pmtu :: "bool option"
  enable_early_data :: "bool option"
  verify_peer :: "bool option"
  disable_active_migration :: "bool option"
  max_stream_window :: "u64 option"
  max_connection_window :: "u64 option"
  max_idle_timeout :: "u64 option"
  max_recv_udp_payload_size :: "usize option"
  max_send_udp_payload_size :: "usize option"
  initial_max_data :: "u64 option"
  initial_max_stream_data_uni :: "u64 option"
  initial_max_stream_data_bidi_local :: "u64 option"
  initial_max_stream_data_bidi_remote :: "u64 option"
  initial_max_streams_bidi :: "u64 option"
  initial_max_streams_uni :: "u64 option"
  active_connection_id_limit :: "u64 option"
  max_ack_delay :: "u64 option"

definition default_quiche_config :: quiche_config where
  "default_quiche_config =
     \<lparr>application_protos = Some [''quic-echo-example''], enable_pacing = Some True,
      discover_pmtu = Some False, enable_early_data = Some False, verify_peer = Some False,
      disable_active_migration = Some True, max_stream_window = Some DEFAULT_MAX_STREAM_WINDOW,
      max_connection_window = Some DEFAULT_MAX_CONNECTION_WINDOW,
      max_idle_timeout = Some DEFAULT_MAX_IDLE_TIMEOUT,
      max_recv_udp_payload_size = Some DEFAULT_MAX_UDP_PACKET_SIZE,
      max_send_udp_payload_size = Some DEFAULT_MAX_SEND_UDP_PAYLOAD_SIZE,
      initial_max_data = Some DEFAULT_MAX_DATA_BUF_SIZE,
      initial_max_stream_data_uni = Some DEFAULT_MAX_DATA_BUF_SIZE,
      initial_max_stream_data_bidi_local = Some DEFAULT_MAX_DATA_BUF_SIZE,
      initial_max_stream_data_bidi_remote = Some DEFAULT_MAX_DATA_BUF_SIZE,
      initial_max_streams_bidi = Some DEFAULT_MAX_STREAM_CONN,
      initial_max_streams_uni = Some DEFAULT_MAX_STREAM_CONN,
      active_connection_id_limit = Some DEFAULT_ACTIVE_CONNECTION_ID_LIMIT,
      max_ack_delay = Some DEFAULT_MAX_ACK_DELAY\<rparr>"

record link_client_config =
  lc_addr :: string
  lc_username :: string
  lc_password :: string
  lc_client_name :: string
  lc_subscribes :: "subscribe list"
  lc_backup_config :: "backup_config option"
  lc_healthy_config :: healthy_config
  lc_channel_config :: channel_config
  lc_buffer_config :: buffer_config
  lc_quiche_config :: quiche_config
  lc_timeout_config :: timeout_config

record link_server_config =
  ls_listen_addr :: string
  ls_healthy_config :: healthy_config
  ls_channel_config :: channel_config
  ls_buffer_config :: buffer_config
  ls_quiche_config :: quiche_config
  ls_timeout_config :: timeout_config

section \<open>Handing the configuration to quiche\<close>

text \<open>The setters of \<open>quiche::Config\<close>, with their arguments.\<close>

datatype quiche_setting =
  Set_application_protos "string list" | Enable_pacing bool | Discover_pmtu bool
| Enable_early_data | Verify_peer bool
| Set_disable_active_migration bool | Set_max_stream_window u64 | Set_max_connection_window u64
| Set_max_idle_timeout u64 | Set_max_recv_udp_payload_size usize
| Set_max_send_udp_payload_size usize | Set_initial_max_data u64
| Set_initial_max_stream_data_uni u64 | Set_initial_max_stream_data_bidi_local u64
| Set_initial_max_stream_data_bidi_remote u64 | Set_initial_max_streams_bidi u64
| Set_initial_max_streams_uni u64 | Set_active_connection_id_limit u64 | Set_max_ack_delay u64

definition set_if_some :: "('a \<Rightarrow> quiche_setting) \<Rightarrow> 'a option \<Rightarrow> quiche_setting list" where
  "set_if_some setter field = (case field of None \<Rightarrow> [] | Some value \<Rightarrow> [setter value])"

lemma set_if_some_simps [simp]:
  "set_if_some f None = []" "set_if_some f (Some v) = [f v]"
  by (simp_all add: set_if_some_def)

lemma set_set_if_some: "set (set_if_some f x) = f ` set_option x"
  by (cases x) simp_all

definition quiche_settings :: "quiche_config \<Rightarrow> quiche_setting list" where
  "quiche_settings config =
     set_if_some Set_application_protos (application_protos config)
     @ set_if_some Enable_pacing (enable_pacing config)
     @ set_if_some Verify_peer (verify_peer config)
     @ set_if_some Set_disable_active_migration (disable_active_migration config)
     @ set_if_some Set_max_stream_window (max_stream_window config)
     @ set_if_some Set_max_connection_window (max_connection_window config)
     @ set_if_some Set_max_idle_timeout (max_idle_timeout config)
     @ set_if_some Set_max_recv_udp_payload_size (max_recv_udp_payload_size config)
     @ set_if_some Set_max_send_udp_payload_size (max_send_udp_payload_size config)
     @ set_if_some Set_initial_max_data (initial_max_data config)
     @ set_if_some Set_initial_max_stream_data_uni (initial_max_stream_data_uni config)
     @ set_if_some Set_initial_max_stream_data_bidi_local (initial_max_stream_data_bidi_local config)
     @ set_if_some Set_initial_max_stream_data_bidi_remote (initial_max_stream_data_bidi_remote config)
     @ set_if_some Set_initial_max_streams_bidi (initial_max_streams_bidi config)
     @ set_if_some Set_initial_max_streams_uni (initial_max_streams_uni config)
     @ set_if_some Set_active_connection_id_limit (active_connection_id_limit config)
     @ set_if_some Set_max_ack_delay (max_ack_delay config)"

text \<open>
  \<open>quiche::Config\<close> is a parameter: a fresh configuration and what a setter does to it.  The
  \<open>unwrap\<close> of \<open>set_application_protos\<close> is left out; the other setters cannot fail.
\<close>

definition quiche_config_from :: "(quiche_setting \<Rightarrow> 'cfg \<Rightarrow> 'cfg) \<Rightarrow> 'cfg \<Rightarrow> quiche_config \<Rightarrow> 'cfg" where
  "quiche_config_from apply_setting fresh config = fold apply_setting (quiche_settings config) fresh"

definition recommend_quiche_config ::
    "(quiche_setting \<Rightarrow> 'cfg \<Rightarrow> 'cfg) \<Rightarrow> 'cfg \<Rightarrow> string list \<Rightarrow> 'cfg" where
  "recommend_quiche_config apply_setting fresh protos =
     apply_setting (Set_application_protos protos)
       (quiche_config_from apply_setting fresh default_quiche_config)"

definition link_recommend_quiche_config :: "(quiche_setting \<Rightarrow> 'cfg \<Rightarrow> 'cfg) \<Rightarrow> 'cfg \<Rightarrow> 'cfg" where
  "link_recommend_quiche_config apply_setting fresh =
     recommend_quiche_config apply_setting fresh [''quic-echo-example'']"

section \<open>Properties\<close>

text \<open>Two of the options of the configuration have no effect: path MTU discovery and early
  data are never handed to the QUIC library, whatever they are set to, while each of the other
  options that is set is handed over with its value.\<close>

lemma quiche_options_ignored:
  "quiche_config_from app fresh (config\<lparr>discover_pmtu := d, enable_early_data := e\<rparr>)
     = quiche_config_from app fresh config
   \<and> Discover_pmtu b \<notin> set (quiche_settings config) \<and> Enable_early_data \<notin> set (quiche_settings config)
   \<and> set (quiche_settings config) =
       Set_application_protos ` set_option (application_protos config)
       \<union> Enable_pacing ` set_option (enable_pacing config)
       \<union> Verify_peer ` set_option (verify_peer config)
       \<union> Set_disable_active_migration ` set_option (disable_active_migration config)
       \<union> Set_max_stream_window ` set_option (max_stream_window config)
       \<union> Set_max_connection_window ` set_option (max_connection_window config)
       \<union> Set_max_idle_timeout ` set_option (max_idle_timeout config)
       \<union> Set_max_recv_udp_payload_size ` set_option (max_recv_udp_payload_size config)
       \<union> Set_max_send_udp_payload_size ` set_option (max_send_udp_payload_size config)
       \<union> Set_initial_max_data ` set_option (initial_max_data config)
       \<union> Set_initial_max_stream_data_uni ` set_option (initial_max_stream_data_uni config)
       \<union> Set_initial_max_stream_data_bidi_local ` set_option (initial_max_stream_data_bidi_local config)
       \<union> Set_initial_max_stream_data_bidi_remote ` set_option (initial_max_stream_data_bidi_remote config)
       \<union> Set_initial_max_streams_bidi ` set_option (initial_max_streams_bidi config)
       \<union> Set_initial_max_streams_uni ` set_option (initial_max_streams_uni config)
       \<union> Set_active_connection_id_limit ` set_option (active_connection_id_limit config)
       \<union> Set_max_ack_delay ` set_option (max_ack_delay config)"
proof (intro conjI)
  show "quiche_config_from app fresh (config\<lparr>discover_pmtu := d, enable_early_data := e\<rparr>)
     = quiche_config_from app fresh config"
    by (simp add: quiche_config_from_def quiche_settings_def)
qed (simp_all add: quiche_settings_def set_set_if_some Un_assoc image_iff)

end
