(* ===== verification/Net_Utils.thy ===== *)
theory Net_Utils
  imports Link_Config
begin

text \<open>
  \<open>link/src/utils.rs\<close> (address resolution and connection ids) and the stateless retry token of
  \<open>link/src/transport/server.rs\<close>.  The resolver, the HMAC of \<open>ring\<close> and the random source are
  parameters.
\<close>

section \<open>Addresses\<close>

datatype ip_addr = IpV4 "32 word" | IpV6 "128 word"

record socket_addr =
  sa_ip :: ip_addr
  sa_port :: "16 word"

fun is_ipv4 :: "ip_addr \<Rightarrow> bool" where
  "is_ipv4 (IpV4 a) = True"
| "is_ipv4 (IpV6 a) = False"

text \<open>The octets of an address, the most significant first.\<close>

fun be_octets :: "nat \<Rightarrow> 'a::len word \<Rightarrow> bytes" where
  "be_octets 0 w = []"
| "be_octets (Suc n) w = be_octets n (drop_bit 8 w) @ [ucast w]"

fun octets :: "ip_addr \<Rightarrow> bytes" where
  "octets (IpV4 a) = be_octets 4 a"
| "octets (IpV6 a) = be_octets 16 a"

lemma length_be_octets [simp]: "length (be_octets n w) = n"
  by (induction n arbitrary: w) auto

record peer_addr =
  pa_socket_addr :: socket_addr
  pa_raw_addr :: string

datatype resolve_error = Unable_To_Resolve | Resolved_Empty

definition resolve_v4 ::
    "(string \<Rightarrow> socket_addr list option) \<Rightarrow> string \<Rightarrow> resolve_error + peer_addr list" where
  "resolve_v4 to_socket_addrs addr =
     (case to_socket_addrs addr of
        None \<Rightarrow> Inl Unable_To_Resolve
      | Some addrs \<Rightarrow>
          Inr (map (\<lambda>a. \<lparr>pa_socket_addr = a, pa_raw_addr = addr\<rparr>)
                 (filter (\<lambda>a. is_ipv4 (sa_ip a)) addrs)))"

definition addr_resolve ::
    "(string \<Rightarrow> socket_addr list option) \<Rightarrow> string \<Rightarrow> backup_config option
      \<Rightarrow> resolve_error + peer_addr \<times> peer_addr list" where
  "addr_resolve to_socket_addrs addr backup =
     and_then (resolve_v4 to_socket_addrs addr) (\<lambda>peer_addrs.
       case peer_addrs of
         [] \<Rightarrow> Inl Resolved_Empty
       | master # rest \<Rightarrow>
           (case backup of
              None \<Rightarrow> Inr (master, rest)
            | Some backup_cfg \<Rightarrow>
                and_then (resolve_v4 to_socket_addrs (bk_addr backup_cfg)) (\<lambda>addrs.
                  Inr (master, rest @ addrs))))"

section \<open>Connection ids\<close>

definition MAX_CONN_ID_LEN :: nat where
  "MAX_CONN_ID_LEN = 20"

definition random_cid :: "(nat \<Rightarrow> bytes option) \<Rightarrow> unit + bytes" where
  "random_cid fill = (case fill MAX_CONN_ID_LEN of None \<Rightarrow> Inl () | Some scid \<Rightarrow> Inr scid)"

definition sign_cid :: "('key \<Rightarrow> bytes \<Rightarrow> bytes) \<Rightarrow> 'key \<Rightarrow> bytes \<Rightarrow> (unit, bytes) res" where
  "sign_cid sign seed cid = slice (sign seed cid) 0 MAX_CONN_ID_LEN"

section \<open>The retry token\<close>

definition TOKEN_PREFIX :: bytes where
  "TOKEN_PREFIX = [0x6c, 0x69, 0x6e, 0x6b, 0x2d, 0x72, 0x73]"

definition TOKEN_PREFIX_LEN :: nat where
  "TOKEN_PREFIX_LEN = length TOKEN_PREFIX"

definition mint_token :: "bytes \<Rightarrow> socket_addr \<Rightarrow> bytes" where
  "mint_token dcid src = TOKEN_PREFIX @ octets (sa_ip src) @ dcid"

definition validate_token :: "socket_addr \<Rightarrow> bytes \<Rightarrow> bytes option" where
  "validate_token src token =
     (if length token < TOKEN_PREFIX_LEN then None
      else if take TOKEN_PREFIX_LEN token \<noteq> TOKEN_PREFIX then None
      else let token = drop TOKEN_PREFIX_LEN token; addr = octets (sa_ip src) in
        if length token < length addr \<or> take (length addr) token \<noteq> addr then None
        else Some (drop (length addr) token))"

lemma validate_token_iff:
  "validate_token src token = Some c \<longleftrightarrow> token = TOKEN_PREFIX @ octets (sa_ip src) @ c"
proof
  assume "validate_token src token = Some c"
  then have pre: "take TOKEN_PREFIX_LEN token = TOKEN_PREFIX"
    and addr: "take (length (octets (sa_ip src))) (drop TOKEN_PREFIX_LEN token) = octets (sa_ip src)"
    and c: "c = drop (length (octets (sa_ip src))) (drop TOKEN_PREFIX_LEN token)"
    by (auto simp: validate_token_def Let_def split: if_splits)
  from addr c have "drop TOKEN_PREFIX_LEN token = octets (sa_ip src) @ c"
    by (metis append_take_drop_id)
  with pre show "token = TOKEN_PREFIX @ octets (sa_ip src) @ c" by (metis append_take_drop_id)
next
  assume "token = TOKEN_PREFIX @ octets (sa_ip src) @ c"
  then show "validate_token src token = Some c"
    by (simp add: validate_token_def TOKEN_PREFIX_LEN_def Let_def)
qed

lemma be_octets_inj:
  fixes a b :: "'a::len word"
  assumes "be_octets n a = be_octets n b" and "LENGTH('a) \<le> 8 * n"
  shows "a = b"
proof (rule bit_word_eqI)
  have "\<forall>i < 8 * n. i < LENGTH('a) \<longrightarrow> bit a i = bit b i"
    using assms(1)
  proof (induction n arbitrary: a b)
    case (Suc n)
    from Suc.prems have high: "be_octets n (drop_bit 8 a) = be_octets n (drop_bit 8 b)"
      and low: "(ucast a :: byte) = ucast b" by simp_all
    note rest = Suc.IH[OF high]
    show ?case
    proof (intro allI impI)
      fix i assume i: "i < 8 * Suc n" "i < LENGTH('a)"
      show "bit a i = bit b i"
      proof (cases "i < 8")
        case True
        then have "bit (ucast a :: byte) i = bit a i" "bit (ucast b :: byte) i = bit b i"
          using i by (simp_all add: bit_ucast_iff)
        then show ?thesis using low by simp
      next
        case False
        then have "bit (drop_bit 8 a) (i - 8) = bit (drop_bit 8 b) (i - 8)"
          using rest i by auto
        then show ?thesis using False by (simp add: bit_drop_bit_eq)
      qed
    qed
  qed simp
  then show "bit a i \<longleftrightarrow> bit b i" if "i < LENGTH('a)" for i using that assms(2) by auto
qed

section \<open>Properties\<close>

text \<open>A token validates to exactly one thing: the connection id that follows the prefix and
  the octets of the source address.  A minted token validates, from the same address and any
  port, to the id it was minted for, and from no other address of the same family.\<close>

lemma retry_token_roundtrip:
  "(validate_token src token = Some c \<longleftrightarrow> token = mint_token c src)
   \<and> validate_token (src\<lparr>sa_port := port\<rparr>) (mint_token dcid src) = Some dcid
   \<and> (validate_token other (mint_token dcid src) \<noteq> None
      \<and> is_ipv4 (sa_ip other) = is_ipv4 (sa_ip src) \<longrightarrow> sa_ip other = sa_ip src)"
proof (intro conjI impI)
  show "validate_token src token = Some c \<longleftrightarrow> token = mint_token c src"
    by (simp add: validate_token_iff mint_token_def)
  show "validate_token (src\<lparr>sa_port := port\<rparr>) (mint_token dcid src) = Some dcid"
    by (simp add: validate_token_iff mint_token_def)
  assume "validate_token other (mint_token dcid src) \<noteq> None
      \<and> is_ipv4 (sa_ip other) = is_ipv4 (sa_ip src)"
  then obtain c where "octets (sa_ip src) @ dcid = octets (sa_ip other) @ c"
    and family: "is_ipv4 (sa_ip other) = is_ipv4 (sa_ip src)"
    by (auto simp: validate_token_iff mint_token_def)
  moreover have "length (octets (sa_ip src)) = length (octets (sa_ip other))"
    using family by (cases "sa_ip src"; cases "sa_ip other") simp_all
  ultimately have same: "octets (sa_ip src) = octets (sa_ip other)" by simp
  show "sa_ip other = sa_ip src"
  proof (cases "sa_ip src")
    case (IpV4 a)
    then obtain b where "sa_ip other = IpV4 b" using family by (cases "sa_ip other") auto
    then show ?thesis using same IpV4 be_octets_inj[of 4 a b] by (simp del: be_octets.simps)
  next
    case (IpV6 a)
    then obtain b where "sa_ip other = IpV6 b" using family by (cases "sa_ip other") auto
    then show ?thesis using same IpV6 be_octets_inj[of 16 a b] by (simp del: be_octets.simps)
  qed
qed

definition v4_src :: socket_addr where
  "v4_src = \<lparr>sa_ip = IpV4 0x7f000001, sa_port = 9494\<rparr>"

lemma retry_token_roundtrip_witness:
  "validate_token (\<lparr>sa_ip = IpV4 0x7f000002, sa_port = 9494\<rparr>) (mint_token [1, 2, 3] v4_src) = None"
  using retry_token_roundtrip[of v4_src "[]" "[]" 0 "[1, 2, 3]"
      "\<lparr>sa_ip = IpV4 0x7f000002, sa_port = 9494\<rparr>"]
  by (auto simp: v4_src_def)

text \<open>What an address resolves to.  Resolution succeeds exactly when the resolver knows the
  address, at least one of its addresses is IPv4, and it knows the backup address if there is
  one; the master is the first IPv4 address, and the backups are the other IPv4 addresses in
  order, followed by those of the backup address.\<close>

lemma addr_resolve_ok:
  "addr_resolve dns addr backup = Inr (master, backups) \<longleftrightarrow>
     (\<exists>addrs rest. dns addr = Some addrs
        \<and> filter (\<lambda>a. is_ipv4 (sa_ip a)) addrs = pa_socket_addr master # rest
        \<and> pa_raw_addr master = addr
        \<and> (case backup of
             None \<Rightarrow> backups = map (\<lambda>a. \<lparr>pa_socket_addr = a, pa_raw_addr = addr\<rparr>) rest
           | Some bk \<Rightarrow> \<exists>more_addrs. dns (bk_addr bk) = Some more_addrs
               \<and> backups = map (\<lambda>a. \<lparr>pa_socket_addr = a, pa_raw_addr = addr\<rparr>) rest
                   @ map (\<lambda>a. \<lparr>pa_socket_addr = a, pa_raw_addr = bk_addr bk\<rparr>)
                       (filter (\<lambda>a. is_ipv4 (sa_ip a)) more_addrs)))"
  by (cases master)
    (auto simp: addr_resolve_def resolve_v4_def and_then_Inr_iff
      split: option.splits list.splits)

end
