(* ===== verification/Transport.thy ===== *)
theory Transport
  imports Quic_Laws Event_Loops Net_Utils
begin

text \<open>
  The UDP tasks and the connection set-up: \<open>udp_read_loop\<close>, \<open>udp_write_loop\<close> and
  \<open>quic_handshake\<close> of \<open>link/src/transport/client.rs\<close>, \<open>udp_write_loop\<close> and the handshake task
  of \<open>accept_new_conn\<close> of \<open>server.rs\<close>, and \<open>connect\<close> and \<open>listen_at\<close> of \<open>transport.rs\<close>.

  A UDP socket is a parameter: its state \<open>'n\<close> and \<open>us_send\<close>, which reports how many bytes it
  sent.  The QUIC connection is the parameter of \<open>Quic_Process\<close>.
\<close>

section \<open>UDP sockets\<close>

datatype udp_error = Udp_Send_Failed | Udp_Recv_Failed | Udp_Chan_Closed

record 'n udp_socket =
  us_send :: "bytes \<Rightarrow> 'n \<Rightarrow> (unit + usize) \<times> 'n"

text \<open>\<open>while sent < total { socket.send(&b[sent..total]) }\<close>\<close>

partial_function (option) udp_send_all ::
    "'n udp_socket \<Rightarrow> bytes \<Rightarrow> usize \<Rightarrow> 'n \<Rightarrow> (udp_error, 'n) ctl option" where
  "udp_send_all sock b sent n =
     (if sent < length b then
        (case us_send sock (drop sent b) n of
           (Inr v, n') \<Rightarrow> udp_send_all sock b (sent + v) n'
         | (Inl e, n') \<Rightarrow> Some (Break Udp_Send_Failed n'))
      else Some (Continue n))"

fun udp_write_loop ::
    "'n udp_socket \<Rightarrow> bytes option list \<Rightarrow> 'n \<Rightarrow> (udp_error, 'n) ctl option" where
  "udp_write_loop sock [] n = Some (Continue n)"
| "udp_write_loop sock (Some b # evs) n =
     run_then (udp_send_all sock b 0 n) (udp_write_loop sock evs)"
| "udp_write_loop sock (None # evs) n = Some (Break Udp_Chan_Closed n)"

text \<open>
  The write loop of an accepted connection: the same over the socket that all connections of the
  server share, every datagram addressed to the connection's peer.
\<close>

definition socket_to ::
    "(socket_addr \<Rightarrow> bytes \<Rightarrow> 'n \<Rightarrow> (unit + usize) \<times> 'n) \<Rightarrow> socket_addr \<Rightarrow> 'n udp_socket" where
  "socket_to send_to peer = \<lparr>us_send = send_to peer\<rparr>"

definition server_udp_write_loop ::
    "(socket_addr \<Rightarrow> bytes \<Rightarrow> 'n \<Rightarrow> (unit + usize) \<times> 'n) \<Rightarrow> socket_addr \<Rightarrow> bytes option list \<Rightarrow> 'n
      \<Rightarrow> (udp_error, 'n) ctl option" where
  "server_udp_write_loop send_to peer = udp_write_loop (socket_to send_to peer)"

text \<open>A datagram longer than the buffer is cut to it by the socket.\<close>

fun udp_read_event :: "usize \<Rightarrow> bytes option \<Rightarrow> bytes chan \<Rightarrow> (udp_error, bytes chan) ctl" where
  "udp_read_event buffer_size (Some datagram) tx =
     (case chan_send (take buffer_size datagram) tx of
        None \<Rightarrow> Break Udp_Chan_Closed tx
      | Some tx' \<Rightarrow> Continue tx')"
| "udp_read_event buffer_size None tx = Break Udp_Recv_Failed tx"

definition udp_read_loop :: "usize \<Rightarrow> bytes option list \<Rightarrow> bytes chan \<Rightarrow> (udp_error, bytes chan) ctl" where
  "udp_read_loop buffer_size = run_loop (udp_read_event buffer_size)"

section \<open>The client's handshake\<close>

datatype hs_input = Hs_Timeout | Hs_Io_Error | Hs_Data bytes

datatype hs_error = Hs_Conn_Send | Hs_Socket_Send | Hs_Timed_Out | Hs_Socket_Recv | Hs_Conn_Recv

text \<open>\<open>Hs_Waiting\<close> is the handshake awaiting its next input.\<close>

datatype ('c, 'n) hs_result = Hs_Done 'c 'n | Hs_Failed hs_error 'n | Hs_Waiting 'c 'n

definition hs_send_one ::
    "'c quiche \<Rightarrow> 'n udp_socket \<Rightarrow> usize \<Rightarrow> 'c \<Rightarrow> 'n \<Rightarrow> ('c, 'n) hs_result" where
  "hs_send_one q sock bsize c n =
     (case qc_send q bsize c of
        (Inr write, c') \<Rightarrow>
          (case us_send sock write n of
             (Inr v, n') \<Rightarrow> Hs_Waiting c' n'
           | (Inl e, n') \<Rightarrow> Hs_Failed Hs_Socket_Send n')
      | (Inl Q_Done, c') \<Rightarrow> Hs_Waiting c' n
      | (Inl Q_Error, c') \<Rightarrow> Hs_Failed Hs_Conn_Send n)"

fun quic_handshake ::
    "'c quiche \<Rightarrow> 'n udp_socket \<Rightarrow> usize \<Rightarrow> hs_input list \<Rightarrow> 'c \<Rightarrow> 'n \<Rightarrow> ('c, 'n) hs_result" where
  "quic_handshake q sock bsize inputs c n =
     (if qc_is_established q c then Hs_Done c n
      else case hs_send_one q sock bsize c n of
        Hs_Waiting c' n' \<Rightarrow>
          (case inputs of
             [] \<Rightarrow> Hs_Waiting c' n'
           | Hs_Timeout # _ \<Rightarrow> Hs_Failed Hs_Timed_Out n'
           | Hs_Io_Error # _ \<Rightarrow> Hs_Failed Hs_Socket_Recv n'
           | Hs_Data d # rest \<Rightarrow>
               (case qc_recv q (take bsize d) c' of
                  (Inr r, c'') \<Rightarrow> quic_handshake q sock bsize rest c'' n'
                | (Inl e, c'') \<Rightarrow> Hs_Failed Hs_Conn_Recv n'))
      | r \<Rightarrow> r)"

declare quic_handshake.simps [simp del]

section \<open>The server's handshake\<close>

datatype accept_error =
  Bad_Header | Accept_Failed | Accept_Recv_Failed | Accept_Send_Failed | Accept_Socket_Failed
| Accept_Chan_Closed | Accept_Cid_Panic

partial_function (option) accept_recv_loop ::
    "'c quiche \<Rightarrow> bytes \<Rightarrow> usize \<Rightarrow> 'c \<Rightarrow> (accept_error, 'c) ctl option" where
  "accept_recv_loop q data read c =
     (if read < length data then
        (case qc_recv q (drop read data) c of
           (Inr r, c') \<Rightarrow> accept_recv_loop q data (read + r) c'
         | (Inl e, c') \<Rightarrow> Some (Break Accept_Recv_Failed c'))
      else Some (Continue c))"

partial_function (option) accept_send_loop ::
    "'c quiche \<Rightarrow> 'n udp_socket \<Rightarrow> usize \<Rightarrow> 'c \<times> 'n \<Rightarrow> (accept_error, 'c \<times> 'n) ctl option" where
  "accept_send_loop q sock bsize st =
     (case st of (c, n) \<Rightarrow>
        (case qc_send q bsize c of
           (Inr write, c') \<Rightarrow>
             Option.bind (udp_send_all sock write 0 n) (\<lambda>r. case r of
                 Continue n' \<Rightarrow> accept_send_loop q sock bsize (c', n')
               | Break e n' \<Rightarrow> Some (Break Accept_Socket_Failed (c', n')))
         | (Inl Q_Done, c') \<Rightarrow> Some (Continue (c', n))
         | (Inl Q_Error, c') \<Rightarrow> Some (Break Accept_Send_Failed (c', n))))"

definition conn_for ::
    "(bytes \<Rightarrow> bytes) \<Rightarrow> (bytes \<Rightarrow> 'c option) \<Rightarrow> bytes \<Rightarrow> 'c option \<Rightarrow> accept_error + 'c" where
  "conn_for sign accept dcid known =
     (case known of
        Some c \<Rightarrow> Inr c
      | None \<Rightarrow>
          (case sign_cid (\<lambda>_. sign) () dcid of
             Inl _ \<Rightarrow> Inl Accept_Cid_Panic
           | Inr scid \<Rightarrow> (case accept scid of None \<Rightarrow> Inl Accept_Failed | Some c \<Rightarrow> Inr c)))"

text \<open>
  One datagram.  \<open>header\<close> reads the destination connection id of a QUIC header, \<open>sign\<close> is the
  HMAC, and \<open>accept\<close> is \<open>quiche::accept\<close>, called with the server's connection id when there is
  no connection yet.
\<close>

definition accept_datagram ::
    "'c quiche \<Rightarrow> 'n udp_socket \<Rightarrow> usize \<Rightarrow> (bytes \<Rightarrow> bytes option) \<Rightarrow> (bytes \<Rightarrow> bytes)
      \<Rightarrow> (bytes \<Rightarrow> 'c option) \<Rightarrow> bytes \<Rightarrow> 'c option \<times> 'n \<Rightarrow> (accept_error, 'c option \<times> 'n) ctl option" where
  "accept_datagram q sock bsize header sign accept data st =
     (case st of (known, n) \<Rightarrow>
        (case header data of
           None \<Rightarrow> Some (Break Bad_Header st)
         | Some dcid \<Rightarrow>
             (case conn_for sign accept dcid known of
                Inl e \<Rightarrow> Some (Break e st)
              | Inr c \<Rightarrow>
                  Option.bind (accept_recv_loop q data 0 c) (\<lambda>r. case r of
                      Break e c' \<Rightarrow> Some (Break e (Some c', n))
                    | Continue c' \<Rightarrow>
                        map_option (map_ctl id (\<lambda>(c, n). (Some c, n)))
                          (accept_send_loop q sock bsize (c', n))))))"

definition accept_established :: "'c quiche \<Rightarrow> 'c option \<times> 'n \<Rightarrow> bool" where
  "accept_established q st = (case fst st of None \<Rightarrow> False | Some c \<Rightarrow> qc_is_established q c)"

text \<open>
  The loop: \<open>Inl\<close> of the state once the connection is established, with the datagrams not yet
  taken; \<open>Inr\<close> while it waits for more.
\<close>

fun accept_loop ::
    "'c quiche \<Rightarrow> 'n udp_socket \<Rightarrow> usize \<Rightarrow> (bytes \<Rightarrow> bytes option) \<Rightarrow> (bytes \<Rightarrow> bytes)
      \<Rightarrow> (bytes \<Rightarrow> 'c option) \<Rightarrow> bytes option list \<Rightarrow> 'c option \<times> 'n
      \<Rightarrow> (accept_error + (('c option \<times> 'n) \<times> bytes option list)
              + 'c option \<times> 'n) option" where
  "accept_loop q sock bsize header sign accept inputs st =
     (if accept_established q st then Some (Inr (Inl (st, inputs)))
      else case inputs of
        [] \<Rightarrow> Some (Inr (Inr st))
      | None # _ \<Rightarrow> Some (Inl Accept_Chan_Closed)
      | Some data # rest \<Rightarrow>
          Option.bind (accept_datagram q sock bsize header sign accept data st) (\<lambda>r. case r of
              Break e st' \<Rightarrow> Some (Inl e)
            | Continue st' \<Rightarrow> accept_loop q sock bsize header sign accept rest st'))"

declare accept_loop.simps [simp del]

section \<open>The listener\<close>

text \<open>
  The map from source addresses to the channels of their connections.  A channel is its
  position in the list of accepted connections; \<open>inboxes\<close> is what was put on each, \<open>late\<close>
  what waits for room on it, \<open>gone\<close> the channels whose consumer has ended.
\<close>

record listen_state =
  routes :: "(socket_addr \<times> nat) list"
  accepted_from :: "socket_addr list"
  inboxes :: "nat \<Rightarrow> bytes list"
  late :: "nat \<Rightarrow> bytes list"
  gone :: "nat list"

definition listen_init :: listen_state where
  "listen_init = \<lparr>routes = [], accepted_from = [], inboxes = (\<lambda>_. []), late = (\<lambda>_. []), gone = []\<rparr>"

datatype listen_input = Route_Tick | Datagram socket_addr bytes | Socket_Failed | Consumer_Gone nat

definition retain_open :: "listen_state \<Rightarrow> listen_state" where
  "retain_open s = s\<lparr>routes := filter (\<lambda>(from, c). c \<notin> set (gone s)) (routes s)\<rparr>"

text \<open>
  A datagram from an unknown source starts a connection whose channel already holds it (a
  fresh channel has room); one from a known source goes to its channel, or waits for room.
\<close>

definition on_datagram :: "channel_config \<Rightarrow> socket_addr \<Rightarrow> bytes \<Rightarrow> listen_state \<Rightarrow> listen_state" where
  "on_datagram conf from d s =
     (case map_of (routes s) from of
        None \<Rightarrow>
          let c = length (accepted_from s);
              s = retain_open (s\<lparr>inboxes := (inboxes s)(c := [d])\<rparr>) in
          s\<lparr>routes := AList.update from c (routes s), accepted_from := accepted_from s @ [from]\<rparr>
      | Some c \<Rightarrow>
          if c \<in> set (gone s) then s
          else if recv_chan_size conf \<le> length (inboxes s c)
          then s\<lparr>late := (late s)(c := late s c @ [d])\<rparr>
          else s\<lparr>inboxes := (inboxes s)(c := inboxes s c @ [d])\<rparr>)"

fun listen_at_step :: "channel_config \<Rightarrow> usize \<Rightarrow> listen_input \<Rightarrow> listen_state \<Rightarrow> (udp_error, listen_state) ctl" where
  "listen_at_step conf bsize Route_Tick s = Continue (retain_open s)"
| "listen_at_step conf bsize (Datagram from d) s = Continue (on_datagram conf from (take bsize d) s)"
| "listen_at_step conf bsize Socket_Failed s = Break Udp_Recv_Failed s"
| "listen_at_step conf bsize (Consumer_Gone c) s = Continue (s\<lparr>gone := gone s @ [c]\<rparr>)"

section \<open>Connecting\<close>

record transport =
  tr_buffer_config :: buffer_config
  tr_channel_config :: channel_config
  tr_quiche_config :: quiche_config
  tr_timeout_config :: timeout_config

definition from_client_config :: "link_client_config \<Rightarrow> transport" where
  "from_client_config cfg =
     \<lparr>tr_buffer_config = lc_buffer_config cfg, tr_channel_config = lc_channel_config cfg,
      tr_quiche_config = lc_quiche_config cfg, tr_timeout_config = lc_timeout_config cfg\<rparr>"

definition from_server_config :: "link_server_config \<Rightarrow> transport" where
  "from_server_config cfg =
     \<lparr>tr_buffer_config = ls_buffer_config cfg, tr_channel_config = ls_channel_config cfg,
      tr_quiche_config = ls_quiche_config cfg, tr_timeout_config = ls_timeout_config cfg\<rparr>"

definition udp_read_buffer_size :: "transport \<Rightarrow> usize" where
  "udp_read_buffer_size tr =
     max (max_udp_read_size (tr_buffer_config tr))
       (case max_recv_udp_payload_size (tr_quiche_config tr) of
          None \<Rightarrow> DEFAULT_MAX_UDP_PACKET_SIZE | Some n \<Rightarrow> n)"

definition udp_data_buffer_size_of :: "transport \<Rightarrow> usize" where
  "udp_data_buffer_size_of tr =
     max (max_udp_read_size (tr_buffer_config tr)) (max_udp_write_size (tr_buffer_config tr))"

text \<open>
  How \<open>connect\<close> ends once its five tasks are spawned.  \<open>try_join!\<close> runs over the join handles:
  it ends early only for a task that panicked or was cancelled, and a task that returned an
  error has joined successfully.
\<close>

datatype task_end = Returned_Ok | Returned_Err | Join_Failed

datatype connect_end = Connect_Ok | Connect_Err

definition join_tasks :: "task_end list \<Rightarrow> connect_end" where
  "join_tasks ends = (if Join_Failed \<in> set ends then Connect_Err else Connect_Ok)"

datatype connect_error =
  Bind_Failed | Quiche_Connect_Failed | Handshake_Failed hs_error | Auth_Send_Failed

text \<open>
  \<open>connect\<close> up to the five tasks: the handshake, then the authentication packet as the first
  on the request channel.  \<open>bound\<close> stands for binding and connecting the socket.
\<close>

definition connect_start ::
    "'c quiche \<Rightarrow> 'n udp_socket \<Rightarrow> transport \<Rightarrow> bool \<Rightarrow> 'c option \<Rightarrow> hs_input list \<Rightarrow> 'n
      \<Rightarrow> 'p \<Rightarrow> 'p chan \<Rightarrow> connect_error + ('c \<times> 'p chan) option" where
  "connect_start q sock tr bound quic_connect inputs n auth_packet request_tx =
     (if \<not> bound then Inl Bind_Failed
      else case quic_connect of
        None \<Rightarrow> Inl Quiche_Connect_Failed
      | Some c \<Rightarrow>
          (case quic_handshake q sock (max_udp_read_size (tr_buffer_config tr)) inputs c n of
             Hs_Failed e n' \<Rightarrow> Inl (Handshake_Failed e)
           | Hs_Waiting c' n' \<Rightarrow> Inr None
           | Hs_Done c' n' \<Rightarrow>
               (case chan_send auth_packet request_tx of
                  None \<Rightarrow> Inl Auth_Send_Failed
                | Some tx \<Rightarrow> Inr (Some (c', tx)))))"

end
