(* ===== verification/Wire.thy ===== *)
theory Wire
  imports Packets
begin

text \<open>
  The wire format: the \<open>DekuRead\<close>/\<open>DekuWrite\<close> layouts that the attributes of
  \<open>link/src/packets.rs\<close> declare, field by field, and the entry points \<open>from_bytes\<close> and
  \<open>to_bytes\<close> of \<open>Packet\<close> and \<open>PacketHeader\<close>.

  The \<open>deku\<close> crate itself is not modelled.  Its two primitives are parameters: \<open>rd n\<close> reads
  an unsigned field of \<open>n\<close> bits from a bit stream and \<open>wr n v\<close> writes one.  What the layouts
  rely on is the locale \<open>deku_io\<close>: a read that runs out of input says \<open>Incomplete\<close>, any other
  read takes exactly \<open>n\<close> bits and depends on nothing behind them, and a write of a value that
  fits is read back.  Nothing is assumed of a write whose value does not fit its bits.
  \<open>rd_msb\<close>/\<open>wr_msb\<close> (most significant bit first, the crate's default order with
  \<open>endian = "big"\<close>) is the instance that the concrete examples evaluate.
\<close>

section \<open>Bits and bytes\<close>

datatype deku_error = DekuIncomplete | DekuParse | DekuOther

fun val_bits :: "nat \<Rightarrow> nat \<Rightarrow> bool list" where
  "val_bits 0 v = []"
| "val_bits (Suc n) v = val_bits n (v div 2) @ [odd v]"

definition bits_val :: "bool list \<Rightarrow> nat" where
  "bits_val bs = foldl (\<lambda>a b. 2 * a + of_bool b) 0 bs"

lemma length_val_bits [simp]: "length (val_bits n v) = n"
  by (induction n arbitrary: v) auto

lemma bits_val_Nil [simp]: "bits_val [] = 0"
  by (simp add: bits_val_def)

lemma bits_val_snoc [simp]: "bits_val (xs @ [b]) = 2 * bits_val xs + of_bool b"
  by (simp add: bits_val_def)

lemma bits_val_bound: "bits_val bs < 2 ^ length bs"
proof (induction bs rule: rev_induct)
  case (snoc b bs)
  then show ?case by (cases b) auto
qed simp

lemma val_bits_bits_val [simp]: "val_bits (length bs) (bits_val bs) = bs"
proof (induction bs rule: rev_induct)
  case (snoc b bs)
  then show ?case by (cases b) auto
qed simp

lemma bits_val_val_bits: "v < 2 ^ n \<Longrightarrow> bits_val (val_bits n v) = v"
proof (induction n arbitrary: v)
  case (Suc n)
  then have "bits_val (val_bits n (v div 2)) = v div 2" by simp
  then show ?case by (cases "even v") (auto elim: evenE oddE)
qed simp

definition byte_bits :: "byte \<Rightarrow> bool list" where
  "byte_bits b = val_bits 8 (unat b)"

definition bits_of_bytes :: "bytes \<Rightarrow> bool list" where
  "bits_of_bytes bs = concat (map byte_bits bs)"

definition byte_of_bits :: "bool list \<Rightarrow> byte" where
  "byte_of_bits bs = word_of_nat (bits_val (bs @ replicate (8 - length bs) False))"

function bytes_of_bits :: "bool list \<Rightarrow> bytes" where
  "bytes_of_bits bs =
     (if bs = [] then [] else byte_of_bits (take 8 bs) # bytes_of_bits (drop 8 bs))"
  by pat_completeness auto
termination by (relation "measure length") auto

declare bytes_of_bits.simps [simp del]

lemma length_byte_bits [simp]: "length (byte_bits b) = 8"
  by (simp add: byte_bits_def)

lemma bits_of_bytes_simps [simp]:
  "bits_of_bytes [] = []"
  "bits_of_bytes (b # bs) = byte_bits b @ bits_of_bytes bs"
  "bits_of_bytes (xs @ ys) = bits_of_bytes xs @ bits_of_bytes ys"
  by (simp_all add: bits_of_bytes_def)

lemma length_bits_of_bytes [simp]: "length (bits_of_bytes bs) = 8 * length bs"
  by (induction bs) auto

lemma byte_bound: "unat (b :: byte) < 2 ^ 8"
  using unsigned_less[of b, where ?'a = nat] by simp

lemma byte_of_bits_byte_bits [simp]: "byte_of_bits (byte_bits b) = b"
  using bits_val_val_bits[OF byte_bound, of b]
  by (simp add: byte_of_bits_def byte_bits_def)

lemma byte_bits_byte_of_bits [simp]: "length bs = 8 \<Longrightarrow> byte_bits (byte_of_bits bs) = bs"
  using bits_val_bound[of bs] val_bits_bits_val[of bs]
  by (simp add: byte_of_bits_def byte_bits_def unat_of_nat)

lemma bytes_of_bits_of_bytes [simp]: "bytes_of_bits (bits_of_bytes bs) = bs"
proof (induction bs)
  case (Cons b bs)
  have "byte_bits b @ bits_of_bytes bs \<noteq> []" by (metis append_is_Nil_conv length_0_conv length_byte_bits zero_neq_numeral)
  with Cons show ?case by (subst bytes_of_bits.simps) simp
qed (simp add: bytes_of_bits.simps)

lemma bits_of_bytes_of_bits: "length bs = 8 * n \<Longrightarrow> bits_of_bytes (bytes_of_bits bs) = bs"
proof (induction n arbitrary: bs)
  case 0
  then show ?case by (simp add: bytes_of_bits.simps)
next
  case (Suc n)
  then have "bits_of_bytes (bytes_of_bits (drop 8 bs)) = drop 8 bs" by simp
  moreover have "byte_bits (byte_of_bits (take 8 bs)) = take 8 bs" using Suc.prems by simp
  moreover have "bs \<noteq> []" using Suc.prems by auto
  ultimately show ?case by (subst bytes_of_bits.simps) simp
qed

lemma length_bytes_of_bits: "length bs = 8 * n \<Longrightarrow> length (bytes_of_bits bs) = n"
  using bits_of_bytes_of_bits[of bs n] length_bits_of_bytes[of "bytes_of_bits bs"] by simp

section \<open>Readers\<close>

type_synonym 'a reader = "bool list \<Rightarrow> deku_error + ('a \<times> bool list)"
type_synonym bit_read = "nat \<Rightarrow> nat reader"
type_synonym bit_write = "nat \<Rightarrow> nat \<Rightarrow> deku_error + bool list"

definition rreturn :: "'a \<Rightarrow> 'a reader" where
  "rreturn x bs = Inr (x, bs)"

definition rfail :: "deku_error \<Rightarrow> 'a reader" where
  "rfail e bs = Inl e"

definition rbind :: "'a reader \<Rightarrow> ('a \<Rightarrow> 'b reader) \<Rightarrow> 'b reader" where
  "rbind m f bs = and_then (m bs) (\<lambda>(x, bs'). f x bs')"

lemma rbind_assoc: "rbind (rbind m f) g = rbind m (\<lambda>x. rbind (f x) g)"
  by (rule ext) (auto simp: rbind_def and_then_assoc split_def)

lemma rbind_rreturn [simp]: "rbind (rreturn x) f = f x"
  by (rule ext) (simp add: rbind_def rreturn_def)

text \<open>The derived reader of an enum with \<open>id_type\<close>: the id selects the variant.\<close>

definition read_enum :: "bit_read \<Rightarrow> nat \<Rightarrow> (nat \<Rightarrow> 'a option) \<Rightarrow> 'a reader" where
  "read_enum rd n variant =
     rbind (rd n) (\<lambda>v. case variant v of None \<Rightarrow> rfail DekuParse | Some x \<Rightarrow> rreturn x)"

definition read_command :: "bit_read \<Rightarrow> command reader" where
  "read_command rd = read_enum rd 4 command_of_id"

definition read_msg_type :: "bit_read \<Rightarrow> msg_type reader" where
  "read_msg_type rd = read_enum rd 8 msg_type_of_id"

definition read_response_status :: "bit_read \<Rightarrow> response_status reader" where
  "read_response_status rd = read_enum rd 8 status_of_id"

fun read_bytes :: "bit_read \<Rightarrow> nat \<Rightarrow> bytes reader" where
  "read_bytes rd 0 = rreturn []"
| "read_bytes rd (Suc n) =
     rbind (rd 8) (\<lambda>v. rbind (read_bytes rd n) (\<lambda>vs. rreturn (word_of_nat v # vs)))"

definition read_request :: "bit_read \<Rightarrow> request reader" where
  "read_request rd =
     rbind (rd 2) (\<lambda>reserved.
     rbind (read_command rd) (\<lambda>cmd.
     rbind (rd 24) (\<lambda>i.
     rbind (rd 8) (\<lambda>tmo.
     rbind (rd 24) (\<lambda>blen.
     rbind (read_bytes rd blen) (\<lambda>body.
       rreturn \<lparr>rq_reserved = word_of_nat reserved, rq_command = cmd, rq_id = word_of_nat i,
                rq_timeout = word_of_nat tmo, rq_body_len = word_of_nat blen,
                rq_body = body\<rparr>))))))"

definition read_response :: "bit_read \<Rightarrow> response reader" where
  "read_response rd =
     rbind (rd 2) (\<lambda>reserved.
     rbind (read_command rd) (\<lambda>cmd.
     rbind (rd 24) (\<lambda>i.
     rbind (read_response_status rd) (\<lambda>status.
     rbind (rd 24) (\<lambda>blen.
     rbind (read_bytes rd blen) (\<lambda>body.
       rreturn \<lparr>rs_reserved = word_of_nat reserved, rs_command = cmd, rs_id = word_of_nat i,
                rs_status = status, rs_body_len = word_of_nat blen, rs_body = body\<rparr>))))))"

definition read_push :: "bit_read \<Rightarrow> push reader" where
  "read_push rd =
     rbind (rd 2) (\<lambda>reserved.
     rbind (read_command rd) (\<lambda>cmd.
     rbind (read_msg_type rd) (\<lambda>mt.
     rbind (rd 24) (\<lambda>blen.
     rbind (read_bytes rd blen) (\<lambda>body.
       rreturn \<lparr>ps_reserved = word_of_nat reserved, ps_command = cmd, ps_msg_type = mt,
                ps_body_len = word_of_nat blen, ps_body = body\<rparr>)))))"

definition read_packet :: "bit_read \<Rightarrow> packet reader" where
  "read_packet rd =
     rbind (rd 2) (\<lambda>typ.
       if typ = 0 then rbind (read_request rd) (\<lambda>r. rreturn (Request r))
       else if typ = 1 then rbind (read_response rd) (\<lambda>r. rreturn (Response r))
       else if typ = 2 then rbind (read_push rd) (\<lambda>r. rreturn (Push r))
       else rfail DekuParse)"

definition read_request_header :: "bit_read \<Rightarrow> request_header reader" where
  "read_request_header rd =
     rbind (rd 2) (\<lambda>reserved.
     rbind (read_command rd) (\<lambda>cmd.
     rbind (rd 24) (\<lambda>i.
     rbind (rd 8) (\<lambda>tmo.
     rbind (rd 24) (\<lambda>blen.
       rreturn \<lparr>rqh_reserved = word_of_nat reserved, rqh_command = cmd,
                rqh_id = word_of_nat i, rqh_timeout = word_of_nat tmo,
                rqh_body_len = word_of_nat blen\<rparr>)))))"

definition read_response_header :: "bit_read \<Rightarrow> response_header reader" where
  "read_response_header rd =
     rbind (rd 2) (\<lambda>reserved.
     rbind (read_command rd) (\<lambda>cmd.
     rbind (rd 24) (\<lambda>i.
     rbind (read_response_status rd) (\<lambda>status.
     rbind (rd 24) (\<lambda>blen.
       rreturn \<lparr>rsh_reserved = word_of_nat reserved, rsh_command = cmd,
                rsh_id = word_of_nat i, rsh_status = status,
                rsh_body_len = word_of_nat blen\<rparr>)))))"

definition read_push_header :: "bit_read \<Rightarrow> push_header reader" where
  "read_push_header rd =
     rbind (rd 2) (\<lambda>reserved.
     rbind (read_command rd) (\<lambda>cmd.
     rbind (read_msg_type rd) (\<lambda>mt.
     rbind (rd 24) (\<lambda>blen.
       rreturn \<lparr>psh_reserved = word_of_nat reserved, psh_command = cmd, psh_msg_type = mt,
                psh_body_len = word_of_nat blen\<rparr>))))"

definition read_packet_header :: "bit_read \<Rightarrow> packet_header reader" where
  "read_packet_header rd =
     rbind (rd 2) (\<lambda>typ.
       if typ = 0 then rbind (read_request_header rd) (\<lambda>r. rreturn (RequestHdr r))
       else if typ = 1 then rbind (read_response_header rd) (\<lambda>r. rreturn (ResponseHdr r))
       else if typ = 2 then rbind (read_push_header rd) (\<lambda>r. rreturn (PushHdr r))
       else rfail DekuParse)"

section \<open>Writers\<close>

fun write_fields :: "bit_write \<Rightarrow> (nat \<times> nat) list \<Rightarrow> deku_error + bool list" where
  "write_fields wr [] = Inr []"
| "write_fields wr ((n, v) # fs) =
     and_then (wr n v) (\<lambda>bs. and_then (write_fields wr fs) (\<lambda>rest. Inr (bs @ rest)))"

definition byte_fields :: "bytes \<Rightarrow> (nat \<times> nat) list" where
  "byte_fields bs = map (\<lambda>b. (8, unat b)) bs"

fun packet_fields :: "packet \<Rightarrow> (nat \<times> nat) list" where
  "packet_fields (Request r) =
     [(2, 0), (2, unat (rq_reserved r)), (4, command_id (rq_command r)), (24, unat (rq_id r)),
      (8, unat (rq_timeout r)), (24, unat (rq_body_len r))] @ byte_fields (rq_body r)"
| "packet_fields (Response r) =
     [(2, 1), (2, unat (rs_reserved r)), (4, command_id (rs_command r)), (24, unat (rs_id r)),
      (8, response_status_id (rs_status r)), (24, unat (rs_body_len r))]
     @ byte_fields (rs_body r)"
| "packet_fields (Push r) =
     [(2, 2), (2, unat (ps_reserved r)), (4, command_id (ps_command r)),
      (8, msg_type_id (ps_msg_type r)), (24, unat (ps_body_len r))] @ byte_fields (ps_body r)"

definition write_packet :: "bit_write \<Rightarrow> packet \<Rightarrow> deku_error + bool list" where
  "write_packet wr p = write_fields wr (packet_fields p)"

section \<open>Entry points\<close>

text \<open>
  \<open>from_bytes((input, cursor))\<close> starts reading at bit \<open>cursor\<close> of \<open>input\<close> and returns the
  position behind the value as (remaining bytes, bit offset).
\<close>

definition from_bytes :: "'a reader \<Rightarrow> bytes \<times> nat \<Rightarrow> deku_error + ((bytes \<times> nat) \<times> 'a)" where
  "from_bytes r inp =
     (let (input, cursor) = inp; all_bits = bits_of_bytes input in
      if length all_bits < cursor then Inl DekuIncomplete
      else and_then (r (drop cursor all_bits)) (\<lambda>(x, rest).
        let bits_read = length all_bits - length rest in
        Inr ((drop (bits_read div 8) input, bits_read mod 8), x)))"

definition packet_from_bytes ::
    "bit_read \<Rightarrow> bytes \<times> nat \<Rightarrow> deku_error + ((bytes \<times> nat) \<times> packet)" where
  "packet_from_bytes rd = from_bytes (read_packet rd)"

definition header_from_bytes ::
    "bit_read \<Rightarrow> bytes \<times> nat \<Rightarrow> deku_error + ((bytes \<times> nat) \<times> packet_header)" where
  "header_from_bytes rd = from_bytes (read_packet_header rd)"

definition packet_to_bytes :: "bit_write \<Rightarrow> packet \<Rightarrow> deku_error + bytes" where
  "packet_to_bytes wr p = and_then (write_packet wr p) (\<lambda>bits. Inr (bytes_of_bits bits))"

end
