(* ===== verification/Wire_Laws.thy ===== *)
theory Wire_Laws
  imports Wire
begin

text \<open>
  The laws of the wire format, proved once in the locale \<open>deku_io\<close> from what the layouts rely
  on: reading back what was written, re-writing what was read, and how a reader behaves on a
  prefix of its input.  Each reader is characterised by one equivalence (\<open>read_packet_Inr_iff\<close>
  and its components): it returns \<open>x\<close> exactly on the inputs that begin with the encoding of a
  well-formed \<open>x\<close>.
\<close>

section \<open>Compositional notions\<close>

definition reads_back :: "'a reader \<Rightarrow> bool list \<Rightarrow> 'a \<Rightarrow> bool" where
  "reads_back r bs x \<longleftrightarrow> (\<forall>rest. r (bs @ rest) = Inr (x, rest))"

definition streaming :: "'a reader \<Rightarrow> bool" where
  "streaming r \<longleftrightarrow> (\<forall>bs x rest. r bs = Inr (x, rest) \<longrightarrow> length rest \<le> length bs) \<and>
     (\<forall>bs ext x rest. r (bs @ ext) = Inr (x, rest) \<longrightarrow>
        (if length ext \<le> length rest then \<exists>rest'. rest = rest' @ ext \<and> r bs = Inr (x, rest')
         else r bs = Inl DekuIncomplete))"

named_theorems streaming_intros \<open>composition rules for streaming readers\<close>

lemma rbind_Inr_iff:
  "rbind m f bs = Inr (y, rest) \<longleftrightarrow>
     (\<exists>x mid. m bs = Inr (x, mid) \<and> f x mid = Inr (y, rest))"
  by (auto simp: rbind_def and_then_Inr_iff)

lemma rreturn_Inr_iff: "rreturn x bs = Inr (y, rest) \<longleftrightarrow> y = x \<and> rest = bs"
  by (auto simp: rreturn_def)

lemma rfail_Inr_iff: "rfail e bs \<noteq> Inr z"
  by (simp add: rfail_def)

lemmas reader_iffs = rbind_Inr_iff rreturn_Inr_iff rfail_Inr_iff

lemma streaming_rreturn [streaming_intros]: "streaming (rreturn x)"
  by (auto simp: streaming_def rreturn_def)

lemma streaming_rfail [streaming_intros]: "streaming (rfail e)"
  by (auto simp: streaming_def rfail_def)

lemma streaming_shrinks: "streaming r \<Longrightarrow> r bs = Inr (x, rest) \<Longrightarrow> length rest \<le> length bs"
  by (simp add: streaming_def)

lemma streaming_within:
  "streaming r \<Longrightarrow> r (bs @ ext) = Inr (x, rest) \<Longrightarrow> length ext \<le> length rest \<Longrightarrow>
     \<exists>rest'. rest = rest' @ ext \<and> r bs = Inr (x, rest')"
  by (auto simp: streaming_def dest: spec2[of _ bs ext])

lemma streaming_beyond:
  "streaming r \<Longrightarrow> r (bs @ ext) = Inr (x, rest) \<Longrightarrow> length rest < length ext \<Longrightarrow>
     r bs = Inl DekuIncomplete"
  by (auto simp: streaming_def not_le dest: spec2[of _ bs ext])

lemma streaming_rbind [streaming_intros]:
  assumes m: "streaming m" and f: "\<And>x. streaming (f x)"
  shows "streaming (rbind m f)"
  unfolding streaming_def
proof (intro conjI allI impI)
  fix bs y rest
  assume "rbind m f bs = Inr (y, rest)"
  then obtain x mid where "m bs = Inr (x, mid)" and "f x mid = Inr (y, rest)"
    by (auto simp: rbind_def and_then_Inr_iff)
  then show "length rest \<le> length bs"
    using streaming_shrinks[OF m] streaming_shrinks[OF f] order_trans by blast
next
  fix bs ext y rest
  assume "rbind m f (bs @ ext) = Inr (y, rest)"
  then obtain x mid where mid: "m (bs @ ext) = Inr (x, mid)" and y: "f x mid = Inr (y, rest)"
    by (auto simp: rbind_def and_then_Inr_iff)
  show "if length ext \<le> length rest then \<exists>rest'. rest = rest' @ ext \<and> rbind m f bs = Inr (y, rest')
        else rbind m f bs = Inl DekuIncomplete"
  proof (cases "length ext \<le> length mid")
    case True
    then obtain mid' where mid': "mid = mid' @ ext" and x: "m bs = Inr (x, mid')"
      using streaming_within[OF m mid] by blast
    from y mid' have y': "f x (mid' @ ext) = Inr (y, rest)" by simp
    show ?thesis
      using streaming_within[OF f y'] streaming_beyond[OF f y'] x
      by (auto simp: rbind_def not_le)
  next
    case False
    then have "m bs = Inl DekuIncomplete" using streaming_beyond[OF m mid] by simp
    moreover have "length rest < length ext"
      using False streaming_shrinks[OF f y] by simp
    ultimately show ?thesis by (simp add: rbind_def)
  qed
qed

lemma streaming_if [streaming_intros]:
  "streaming r \<Longrightarrow> streaming s \<Longrightarrow> streaming (if b then r else s)"
  by simp

lemma streaming_case_option [streaming_intros]:
  "streaming r \<Longrightarrow> (\<And>x. streaming (s x)) \<Longrightarrow>
     streaming (case z of None \<Rightarrow> r | Some x \<Rightarrow> s x)"
  by (cases z) auto

lemma byte_bits_inj: "byte_bits a = byte_bits b \<Longrightarrow> a = b"
  by (metis byte_of_bits_byte_bits)

lemma bits_of_bytes_prefix:
  "bits_of_bytes xs = bits_of_bytes ys @ zs \<Longrightarrow> \<exists>ws. xs = ys @ ws \<and> zs = bits_of_bytes ws"
proof (induction ys arbitrary: xs)
  case (Cons y ys)
  from Cons.prems have "xs \<noteq> []" by (metis append_is_Nil_conv bits_of_bytes_simps(1,2)
    length_0_conv length_byte_bits zero_neq_numeral)
  then obtain x xs' where xs: "xs = x # xs'" by (cases xs) auto
  with Cons.prems have "byte_bits x = byte_bits y" and "bits_of_bytes xs' = bits_of_bytes ys @ zs"
    by (auto simp: append_eq_append_conv)
  with Cons.IH xs show ?case by (auto dest: byte_bits_inj)
qed simp

section \<open>The header of a packet\<close>

fun header_of :: "packet \<Rightarrow> packet_header" where
  "header_of (Request r) = RequestHdr
     \<lparr>rqh_reserved = rq_reserved r, rqh_command = rq_command r, rqh_id = rq_id r,
      rqh_timeout = rq_timeout r, rqh_body_len = rq_body_len r\<rparr>"
| "header_of (Response r) = ResponseHdr
     \<lparr>rsh_reserved = rs_reserved r, rsh_command = rs_command r, rsh_id = rs_id r,
      rsh_status = rs_status r, rsh_body_len = rs_body_len r\<rparr>"
| "header_of (Push r) = PushHdr
     \<lparr>psh_reserved = ps_reserved r, psh_command = ps_command r, psh_msg_type = ps_msg_type r,
      psh_body_len = ps_body_len r\<rparr>"

fun header_size :: "packet \<Rightarrow> nat" where
  "header_size (Request r) = REQUEST_HEADER_SIZE"
| "header_size (Response r) = RESPONSE_HEADER_SIZE"
| "header_size (Push r) = PUSH_HEADER_SIZE"

fun packet_body :: "packet \<Rightarrow> bytes" where
  "packet_body (Request r) = rq_body r"
| "packet_body (Response r) = rs_body r"
| "packet_body (Push r) = ps_body r"

fun header_body_len :: "packet_header \<Rightarrow> nat" where
  "header_body_len (RequestHdr h) = unat (rqh_body_len h)"
| "header_body_len (ResponseHdr h) = unat (rsh_body_len h)"
| "header_body_len (PushHdr h) = unat (psh_body_len h)"

lemma need_bytes_header_of [simp]: "need_bytes (header_of p) = total_bytes p"
  by (cases p) auto

lemma total_bytes_wf: "wf_packet p \<Longrightarrow> total_bytes p = header_size p + length (packet_body p)"
  by (cases p) (auto simp: wf_body_def)

section \<open>What the layouts rely on\<close>

locale deku_io =
  fixes rd :: bit_read and wr :: bit_write
  assumes rd_streaming [streaming_intros]: "streaming (rd n)"
    and rd_short: "length bs < n \<Longrightarrow> rd n bs = Inl DekuIncomplete"
    and rd_enough: "n \<le> length bs \<Longrightarrow> \<exists>v. v < 2 ^ n \<and> rd n bs = Inr (v, drop n bs)"
    and wr_fits: "v < 2 ^ n \<Longrightarrow> \<exists>bs. wr n v = Inr bs \<and> length bs = n \<and> reads_back (rd n) bs v"
    and wr_rd: "length bs = n \<Longrightarrow> rd n bs = Inr (v, []) \<Longrightarrow> wr n v = Inr bs"
begin

definition enc :: "nat \<Rightarrow> nat \<Rightarrow> bool list" where
  "enc n v = (case wr n v of Inr bs \<Rightarrow> bs | Inl e \<Rightarrow> [])"

lemma wr_enc: "v < 2 ^ n \<Longrightarrow> wr n v = Inr (enc n v)"
  using wr_fits[of v n] by (auto simp: enc_def)

lemma length_enc: "v < 2 ^ n \<Longrightarrow> length (enc n v) = n"
  using wr_fits[of v n] by (auto simp: enc_def)

lemma rd_enc: "v < 2 ^ n \<Longrightarrow> rd n (enc n v @ rest) = Inr (v, rest)"
  using wr_fits[of v n] by (auto simp: enc_def reads_back_def)

lemma rd_Inr:
  assumes "rd n bs = Inr (v, rest)"
  shows "n \<le> length bs" and "v < 2 ^ n" and "bs = enc n v @ rest" and "rest = drop n bs"
proof -
  show n: "n \<le> length bs" using assms rd_short[of bs n] by (cases "length bs < n") auto
  then show v: "v < 2 ^ n" and rest: "rest = drop n bs" using assms rd_enough[of n bs] by auto
  have "rd n (take n bs @ drop n bs) = Inr (v, drop n bs)" using assms rest by simp
  then obtain r' where "rd n (take n bs) = Inr (v, r')" and "drop n bs = r' @ drop n bs"
    using streaming_within[OF rd_streaming, of n "take n bs" "drop n bs" v "drop n bs"] by blast
  then have "wr n v = Inr (take n bs)" using wr_rd[of "take n bs" n v] n by simp
  then have "enc n v = take n bs" by (simp add: enc_def)
  then show "bs = enc n v @ rest" using rest by simp
qed

lemma rd_Inr_iff: "rd n bs = Inr (v, rest) \<longleftrightarrow> v < 2 ^ n \<and> bs = enc n v @ rest"
  using rd_Inr rd_enc by metis

section \<open>Writers\<close>

definition enc_fields :: "(nat \<times> nat) list \<Rightarrow> bool list" where
  "enc_fields fs = concat (map (\<lambda>(n, v). enc n v) fs)"

definition fields_fit :: "(nat \<times> nat) list \<Rightarrow> bool" where
  "fields_fit fs \<longleftrightarrow> (\<forall>(n, v) \<in> set fs. v < 2 ^ n)"

lemma enc_fields_simps [simp]:
  "enc_fields [] = []"
  "enc_fields ((n, v) # fs) = enc n v @ enc_fields fs"
  "enc_fields (fs @ gs) = enc_fields fs @ enc_fields gs"
  by (simp_all add: enc_fields_def)

lemma fields_fit_simps [simp]:
  "fields_fit []"
  "fields_fit ((n, v) # fs) \<longleftrightarrow> v < 2 ^ n \<and> fields_fit fs"
  "fields_fit (fs @ gs) \<longleftrightarrow> fields_fit fs \<and> fields_fit gs"
  by (auto simp: fields_fit_def)

lemma write_fields_enc: "fields_fit fs \<Longrightarrow> write_fields wr fs = Inr (enc_fields fs)"
  by (induction fs) (auto simp: wr_enc)

lemma length_enc_fields: "fields_fit fs \<Longrightarrow> length (enc_fields fs) = sum_list (map fst fs)"
  by (induction fs) (auto simp: length_enc)

lemma byte_fields_fit [simp]: "fields_fit (byte_fields bs)"
  using byte_bound by (auto simp: fields_fit_def byte_fields_def)

lemma length_enc_byte_fields [simp]: "length (enc_fields (byte_fields bs)) = 8 * length bs"
  by (induction bs) (auto simp: byte_fields_def length_enc byte_bound[simplified])

lemma packet_fields_fit: "wf_packet p \<Longrightarrow> fields_fit (packet_fields p)"
  by (cases p)
    (auto simp: wf_body_def byte_bound[simplified]
       order.strict_trans[OF command_id_bound] order.strict_trans[OF msg_type_id_bound]
       order.strict_trans[OF response_status_id_bound])

section \<open>Readers\<close>

lemma read_enum_Inr_iff:
  assumes variant: "\<And>v x. variant v = Some x \<longleftrightarrow> v = key x" and fits: "\<And>x. key x < 2 ^ n"
  shows "read_enum rd n variant bs = Inr (x, rest) \<longleftrightarrow> bs = enc n (key x) @ rest"
proof
  assume "read_enum rd n variant bs = Inr (x, rest)"
  then show "bs = enc n (key x) @ rest"
    by (auto simp: read_enum_def reader_iffs rd_Inr_iff variant split: option.splits)
next
  assume bs: "bs = enc n (key x) @ rest"
  have "variant (key x) = Some x" by (simp add: variant)
  then show "read_enum rd n variant bs = Inr (x, rest)"
    by (simp add: bs read_enum_def rbind_def rreturn_def rd_enc fits)
qed

lemma read_command_Inr_iff:
  "read_command rd bs = Inr (c, rest) \<longleftrightarrow> bs = enc 4 (command_id c) @ rest"
  unfolding read_command_def
  by (rule read_enum_Inr_iff) (use command_id_bound in \<open>auto dest: command_of_id_Some\<close>)

lemma read_msg_type_Inr_iff:
  "read_msg_type rd bs = Inr (c, rest) \<longleftrightarrow> bs = enc 8 (msg_type_id c) @ rest"
  unfolding read_msg_type_def
  by (rule read_enum_Inr_iff) (use msg_type_id_bound in \<open>auto dest: msg_type_of_id_Some\<close>)

lemma read_response_status_Inr_iff:
  "read_response_status rd bs = Inr (c, rest) \<longleftrightarrow> bs = enc 8 (response_status_id c) @ rest"
  unfolding read_response_status_def
  by (rule read_enum_Inr_iff) (use response_status_id_bound in \<open>auto dest: status_of_id_Some\<close>)

lemma read_bytes_back:
  "read_bytes rd (length xs) (enc_fields (byte_fields xs) @ rest) = Inr (xs, rest)"
  by (induction xs)
    (auto simp: byte_fields_def rbind_def rreturn_def rd_enc byte_bound[simplified])

lemma read_bytes_Inr:
  "read_bytes rd n bs = Inr (xs, rest) \<Longrightarrow>
     length xs = n \<and> bs = enc_fields (byte_fields xs) @ rest"
  by (induction n arbitrary: bs xs)
    (fastforce simp: reader_iffs rd_Inr_iff byte_fields_def unat_of_nat)+

lemmas read_backs = rbind_def rreturn_def rd_enc read_bytes_back
  read_command_Inr_iff[THEN iffD2, OF refl] read_msg_type_Inr_iff[THEN iffD2, OF refl]
  read_response_status_Inr_iff[THEN iffD2, OF refl]

lemmas field_iffs = reader_iffs rd_Inr_iff read_command_Inr_iff read_msg_type_Inr_iff
  read_response_status_Inr_iff

lemma read_request_Inr_iff:
  "read_request rd bs = Inr (r, rest) \<longleftrightarrow>
     wf_packet (Request r) \<and> bs = enc_fields (tl (packet_fields (Request r))) @ rest"
proof
  assume "read_request rd bs = Inr (r, rest)"
  then show "wf_packet (Request r) \<and> bs = enc_fields (tl (packet_fields (Request r))) @ rest"
    by (auto simp: read_request_def field_iffs unat_of_nat wf_body_def dest!: read_bytes_Inr)
next
  assume "wf_packet (Request r) \<and> bs = enc_fields (tl (packet_fields (Request r))) @ rest"
  then show "read_request rd bs = Inr (r, rest)"
    by (cases r) (auto simp: read_request_def read_backs wf_body_def byte_bound[simplified]
        intro!: word_of_unat)
qed

lemma read_response_Inr_iff:
  "read_response rd bs = Inr (r, rest) \<longleftrightarrow>
     wf_packet (Response r) \<and> bs = enc_fields (tl (packet_fields (Response r))) @ rest"
proof
  assume "read_response rd bs = Inr (r, rest)"
  then show "wf_packet (Response r) \<and> bs = enc_fields (tl (packet_fields (Response r))) @ rest"
    by (auto simp: read_response_def field_iffs unat_of_nat wf_body_def dest!: read_bytes_Inr)
next
  assume "wf_packet (Response r) \<and> bs = enc_fields (tl (packet_fields (Response r))) @ rest"
  then show "read_response rd bs = Inr (r, rest)"
    by (cases r) (auto simp: read_response_def read_backs wf_body_def intro!: word_of_unat)
qed

lemma read_push_Inr_iff:
  "read_push rd bs = Inr (r, rest) \<longleftrightarrow>
     wf_packet (Push r) \<and> bs = enc_fields (tl (packet_fields (Push r))) @ rest"
proof
  assume "read_push rd bs = Inr (r, rest)"
  then show "wf_packet (Push r) \<and> bs = enc_fields (tl (packet_fields (Push r))) @ rest"
    by (auto simp: read_push_def field_iffs unat_of_nat wf_body_def dest!: read_bytes_Inr)
next
  assume "wf_packet (Push r) \<and> bs = enc_fields (tl (packet_fields (Push r))) @ rest"
  then show "read_push rd bs = Inr (r, rest)"
    by (cases r) (auto simp: read_push_def read_backs wf_body_def intro!: word_of_unat)
qed

lemma read_packet_Inr_iff:
  "read_packet rd bs = Inr (p, rest) \<longleftrightarrow>
     wf_packet p \<and> bs = enc_fields (packet_fields p) @ rest"
proof
  assume "read_packet rd bs = Inr (p, rest)"
  then show "wf_packet p \<and> bs = enc_fields (packet_fields p) @ rest"
    by (auto simp: read_packet_def reader_iffs rd_Inr_iff read_request_Inr_iff
         read_response_Inr_iff read_push_Inr_iff split: if_splits)
next
  assume *: "wf_packet p \<and> bs = enc_fields (packet_fields p) @ rest"
  show "read_packet rd bs = Inr (p, rest)"
  proof (cases p)
    case (Request r)
    with * have "read_request rd (enc_fields (tl (packet_fields (Request r))) @ rest) = Inr (r, rest)"
      by (simp only: read_request_Inr_iff)
    with Request * show ?thesis by (simp add: read_packet_def rbind_def rd_enc rreturn_def)
  next
    case (Response r)
    with * have "read_response rd (enc_fields (tl (packet_fields (Response r))) @ rest) = Inr (r, rest)"
      by (simp only: read_response_Inr_iff)
    with Response * show ?thesis by (simp add: read_packet_def rbind_def rd_enc rreturn_def)
  next
    case (Push r)
    with * have "read_push rd (enc_fields (tl (packet_fields (Push r))) @ rest) = Inr (r, rest)"
      by (simp only: read_push_Inr_iff)
    with Push * show ?thesis by (simp add: read_packet_def rbind_def rd_enc rreturn_def)
  qed
qed

lemma read_bytes_streaming [streaming_intros]: "streaming (read_bytes rd n)"
  by (induction n) (auto intro!: streaming_intros)

lemmas reader_defs = read_packet_header_def read_request_header_def read_response_header_def
  read_push_header_def read_command_def read_msg_type_def read_response_status_def read_enum_def

lemma read_packet_header_streaming: "streaming (read_packet_header rd)"
  unfolding reader_defs by (intro streaming_intros)

lemma read_packet_header_back:
  "wf_packet p \<Longrightarrow> read_packet_header rd (enc_fields (packet_fields p) @ rest)
     = Inr (header_of p, enc_fields (byte_fields (packet_body p)) @ rest)"
  by (cases p)
    (auto simp: read_packet_header_def read_request_header_def read_response_header_def
       read_push_header_def read_backs wf_body_def byte_bound[simplified] intro!: word_of_unat)

lemma read_request_via_header:
  assumes h: "read_request_header rd bs = Inr (h, r1)"
    and body: "read_bytes rd (unat (rqh_body_len h)) r1 = Inr (xs, r2)"
  shows "\<exists>r. read_request rd bs = Inr (r, r2) \<and> header_of (Request r) = RequestHdr h"
proof -
  from h obtain v c i t n where lim: "v < 2 ^ 2" "i < 2 ^ 24" "t < 2 ^ 8" "n < 2 ^ 24"
    and bs: "bs = enc 2 v @ enc 4 (command_id c) @ enc 24 i
        @ enc 8 t @ enc 24 n @ r1"
    and h': "h = \<lparr>rqh_reserved = word_of_nat v, rqh_command = c, rqh_id = word_of_nat i,
        rqh_timeout = word_of_nat t, rqh_body_len = word_of_nat n\<rparr>"
    by (auto simp: read_request_header_def field_iffs)
  have "read_bytes rd n r1 = Inr (xs, r2)" using body lim by (simp add: h' unat_of_nat)
  then show ?thesis using lim by (simp add: bs h' read_request_def read_backs)
qed

lemma read_response_via_header:
  assumes h: "read_response_header rd bs = Inr (h, r1)"
    and body: "read_bytes rd (unat (rsh_body_len h)) r1 = Inr (xs, r2)"
  shows "\<exists>r. read_response rd bs = Inr (r, r2) \<and> header_of (Response r) = ResponseHdr h"
proof -
  from h obtain v c i t n where lim: "v < 2 ^ 2" "i < 2 ^ 24" "n < 2 ^ 24"
    and bs: "bs = enc 2 v @ enc 4 (command_id c) @ enc 24 i
        @ enc 8 (response_status_id t) @ enc 24 n @ r1"
    and h': "h = \<lparr>rsh_reserved = word_of_nat v, rsh_command = c, rsh_id = word_of_nat i,
        rsh_status = t, rsh_body_len = word_of_nat n\<rparr>"
    by (auto simp: read_response_header_def field_iffs)
  have "read_bytes rd n r1 = Inr (xs, r2)" using body lim by (simp add: h' unat_of_nat)
  then show ?thesis using lim by (simp add: bs h' read_response_def read_backs)
qed

lemma read_push_via_header:
  assumes h: "read_push_header rd bs = Inr (h, r1)"
    and body: "read_bytes rd (unat (psh_body_len h)) r1 = Inr (xs, r2)"
  shows "\<exists>r. read_push rd bs = Inr (r, r2) \<and> header_of (Push r) = PushHdr h"
proof -
  from h obtain v c t n where lim: "v < 2 ^ 2" "n < 2 ^ 24"
    and bs: "bs = enc 2 v @ enc 4 (command_id c) @ enc 8 (msg_type_id t) @ enc 24 n @ r1"
    and h': "h = \<lparr>psh_reserved = word_of_nat v, psh_command = c, psh_msg_type = t,
        psh_body_len = word_of_nat n\<rparr>"
    by (auto simp: read_push_header_def field_iffs)
  have "read_bytes rd n r1 = Inr (xs, r2)" using body lim by (simp add: h' unat_of_nat)
  then show ?thesis using lim by (simp add: bs h' read_push_def read_backs)
qed

lemma read_packet_via_header:
  assumes "read_packet_header rd bs = Inr (h, r1)"
    and body: "read_bytes rd (header_body_len h) r1 = Inr (xs, r2)"
  shows "\<exists>p. read_packet rd bs = Inr (p, r2) \<and> header_of p = h"
proof -
  from assms(1) obtain v mid where v: "rd 2 bs = Inr (v, mid)" and rest:
    "(v = 0 \<and> (\<exists>g. read_request_header rd mid = Inr (g, r1) \<and> h = RequestHdr g)) \<or>
     (v = 1 \<and> (\<exists>g. read_response_header rd mid = Inr (g, r1) \<and> h = ResponseHdr g)) \<or>
     (v = 2 \<and> (\<exists>g. read_push_header rd mid = Inr (g, r1) \<and> h = PushHdr g))"
    by (auto simp: read_packet_header_def reader_iffs split: if_splits)
  from rest show ?thesis
  proof (elim disjE conjE exE)
    fix g assume "v = 0" and g: "read_request_header rd mid = Inr (g, r1)" and "h = RequestHdr g"
    then show ?thesis
      using v body read_request_via_header[OF g, of xs r2]
      by (auto simp: read_packet_def rbind_def rreturn_def)
  next
    fix g assume "v = 1" and g: "read_response_header rd mid = Inr (g, r1)" and "h = ResponseHdr g"
    then show ?thesis
      using v body read_response_via_header[OF g, of xs r2]
      by (auto simp: read_packet_def rbind_def rreturn_def)
  next
    fix g assume "v = 2" and g: "read_push_header rd mid = Inr (g, r1)" and "h = PushHdr g"
    then show ?thesis
      using v body read_push_via_header[OF g, of xs r2]
      by (auto simp: read_packet_def rbind_def rreturn_def)
  qed
qed

lemma read_bytes_enough:
  "8 * n \<le> length bs \<Longrightarrow> \<exists>xs. read_bytes rd n bs = Inr (xs, drop (8 * n) bs)"
proof (induction n arbitrary: bs)
  case (Suc n)
  then have "8 \<le> length bs" by simp
  then obtain v where v: "rd 8 bs = Inr (v, drop 8 bs)" using rd_enough[of 8 bs] by auto
  have "8 * n \<le> length (drop 8 bs)" using Suc.prems by simp
  with Suc.IH obtain xs where "read_bytes rd n (drop 8 bs) = Inr (xs, drop (8 * n) (drop 8 bs))"
    by blast
  with v show ?case by (auto simp: rbind_def rreturn_def add.commute)
qed (simp add: rreturn_def)

section \<open>Entry points\<close>

definition wire :: "packet \<Rightarrow> bytes" where
  "wire p = bytes_of_bits (enc_fields (packet_fields p))"

lemma length_enc_packet:
  assumes "wf_packet p"
  shows "length (enc_fields (packet_fields p)) = 8 * total_bytes p"
  using assms
  by (cases p) (auto simp: length_enc header_sizes wf_body_def byte_bound[simplified]
      order.strict_trans[OF command_id_bound] order.strict_trans[OF msg_type_id_bound]
      order.strict_trans[OF response_status_id_bound])

lemma bits_of_wire: "wf_packet p \<Longrightarrow> bits_of_bytes (wire p) = enc_fields (packet_fields p)"
  unfolding wire_def by (rule bits_of_bytes_of_bits) (rule length_enc_packet)

lemma length_wire: "wf_packet p \<Longrightarrow> length (wire p) = total_bytes p"
  unfolding wire_def by (rule length_bytes_of_bits) (rule length_enc_packet)

lemma packet_to_bytes_wire: "wf_packet p \<Longrightarrow> packet_to_bytes wr p = Inr (wire p)"
  by (simp add: packet_to_bytes_def write_packet_def write_fields_enc packet_fields_fit wire_def)

lemma from_bytes_0:
  assumes "r (bits_of_bytes input) = Inr (x, bits_of_bytes rest)" and "input = pre @ rest"
  shows "from_bytes r (input, 0) = Inr ((rest, 0), x)"
  using assms by (simp add: from_bytes_def)

lemma packet_from_bytes_iff:
  "packet_from_bytes rd (input, 0) = Inr ((rest, c), p) \<longleftrightarrow>
     wf_packet p \<and> c = 0 \<and> input = wire p @ rest"
proof
  assume "packet_from_bytes rd (input, 0) = Inr ((rest, c), p)"
  then obtain rb where read: "read_packet rd (bits_of_bytes input) = Inr (p, rb)"
    and pos: "(rest, c) = (drop ((8 * length input - length rb) div 8) input,
                           (8 * length input - length rb) mod 8)"
    by (auto simp: packet_from_bytes_def from_bytes_def and_then_Inr_iff Let_def)
  from read have wf: "wf_packet p" and "bits_of_bytes input = enc_fields (packet_fields p) @ rb"
    by (auto simp: read_packet_Inr_iff)
  then obtain ws where "input = wire p @ ws" and "rb = bits_of_bytes ws"
    using bits_of_bytes_prefix[of input "wire p" rb] bits_of_wire[OF wf] by auto
  with pos wf show "wf_packet p \<and> c = 0 \<and> input = wire p @ rest" by simp
next
  assume *: "wf_packet p \<and> c = 0 \<and> input = wire p @ rest"
  then have "read_packet rd (bits_of_bytes input) = Inr (p, bits_of_bytes rest)"
    by (simp add: read_packet_Inr_iff bits_of_wire)
  with * show "packet_from_bytes rd (input, 0) = Inr ((rest, c), p)"
    unfolding packet_from_bytes_def by (auto intro: from_bytes_0[where pre = "wire p"])
qed

text \<open>
  A header read from the beginning of a packet stream: with the whole header there it is the
  packet's header, with less the reader asks for more.
\<close>

lemma header_from_prefix:
  assumes wf: "wf_packet p" and input: "input @ ext = wire p @ suff"
  shows "if header_size p \<le> length input
    then \<exists>pos. header_from_bytes rd (input, 0) = Inr (pos, header_of p)
    else header_from_bytes rd (input, 0) = Inl DekuIncomplete"
proof -
  let ?tail = "enc_fields (byte_fields (packet_body p)) @ bits_of_bytes suff"
  have "bits_of_bytes input @ bits_of_bytes ext
      = enc_fields (packet_fields p) @ bits_of_bytes suff"
    by (metis input bits_of_bytes_simps(3) bits_of_wire[OF wf])
  then have read: "read_packet_header rd (bits_of_bytes input @ bits_of_bytes ext)
      = Inr (header_of p, ?tail)"
    using read_packet_header_back[OF wf] by simp
  have "length input + length ext = header_size p + length (packet_body p) + length suff"
    using arg_cong[OF input, of length] length_wire[OF wf] total_bytes_wf[OF wf] by simp
  then have iff: "length (bits_of_bytes ext) \<le> length ?tail \<longleftrightarrow> header_size p \<le> length input"
    by simp linarith
  show ?thesis
  proof (cases "header_size p \<le> length input")
    case True
    then obtain rest' where "read_packet_header rd (bits_of_bytes input) = Inr (header_of p, rest')"
      using streaming_within[OF read_packet_header_streaming read] iff by auto
    with True show ?thesis by (simp add: header_from_bytes_def from_bytes_def Let_def)
  next
    case False
    then have "read_packet_header rd (bits_of_bytes input) = Inl DekuIncomplete"
      using streaming_beyond[OF read_packet_header_streaming read] iff by linarith
    with False show ?thesis by (simp add: header_from_bytes_def from_bytes_def)
  qed
qed

text \<open>
  On any bytes at all: where a header is read and as many bytes as it asks for are there, the
  packet behind it is read too, and has that header and that size.
\<close>

lemma header_size_of_read:
  assumes "read_packet_header rd bs = Inr (h, r1)"
  shows "length bs + 8 * header_body_len h = length r1 + 8 * need_bytes h"
  using assms
  by (auto simp: read_packet_header_def read_request_header_def read_response_header_def
      read_push_header_def field_iffs length_enc header_sizes unat_of_nat
      order.strict_trans[OF command_id_bound] order.strict_trans[OF msg_type_id_bound]
      order.strict_trans[OF response_status_id_bound] split: if_splits)

lemma header_then_packet:
  assumes h: "header_from_bytes rd (input, 0) = Inr (pos, h)"
    and enough: "need_bytes h \<le> length input"
  obtains p rest where "packet_from_bytes rd (input, 0) = Inr ((rest, 0), p)" "header_of p = h"
proof -
  from h obtain r1 where r1: "read_packet_header rd (bits_of_bytes input) = Inr (h, r1)"
    by (auto simp: header_from_bytes_def from_bytes_def and_then_Inr_iff Let_def)
  have "8 * header_body_len h \<le> length r1"
    using header_size_of_read[OF r1] enough by simp
  then obtain xs where "read_bytes rd (header_body_len h) r1
      = Inr (xs, drop (8 * header_body_len h) r1)"
    using read_bytes_enough by blast
  then obtain p rb where p: "read_packet rd (bits_of_bytes input) = Inr (p, rb)"
    and "header_of p = h"
    using read_packet_via_header[OF r1] by blast
  moreover from p have wf: "wf_packet p"
    and "bits_of_bytes input = bits_of_bytes (wire p) @ rb"
    by (auto simp: read_packet_Inr_iff bits_of_wire)
  then obtain ws where "input = wire p @ ws" using bits_of_bytes_prefix by blast
  with wf have "packet_from_bytes rd (input, 0) = Inr ((ws, 0), p)"
    by (simp add: packet_from_bytes_iff)
  ultimately show ?thesis using that by blast
qed

end

section \<open>Most significant bit first\<close>

definition rd_msb :: bit_read where
  "rd_msb n bs =
     (if length bs < n then Inl DekuIncomplete else Inr (bits_val (take n bs), drop n bs))"

definition wr_msb :: bit_write where
  "wr_msb n v = Inr (val_bits n v)"

lemma rd_msb_streaming: "streaming (rd_msb n)"
  by (auto simp: streaming_def rd_msb_def not_le)

interpretation msb: deku_io rd_msb wr_msb
proof (unfold_locales, goal_cases)
  case (1 n)
  show ?case by (rule rd_msb_streaming)
next
  case (2 bs n)
  then show ?case by (simp add: rd_msb_def)
next
  case (3 n bs)
  then show ?case using bits_val_bound[of "take n bs"] by (simp add: rd_msb_def)
next
  case (4 v n)
  then show ?case by (simp add: wr_msb_def reads_back_def rd_msb_def bits_val_val_bits)
next
  case (5 bs n v)
  then show ?case by (auto simp: wr_msb_def rd_msb_def)
qed

section \<open>Properties\<close>

text \<open>C5: Round trip.  A well-formed packet is encoded into exactly \<open>total_bytes\<close> bytes, and
  decoding those bytes, whatever follows them, returns the packet and the bytes that follow,
  at a byte boundary.\<close>

theorem packet_roundtrip:
  assumes "deku_io rd wr" and "wf_packet p"
  shows "\<exists>b. packet_to_bytes wr p = Inr b \<and> length b = total_bytes p
    \<and> (\<forall>rest. packet_from_bytes rd (b @ rest, 0) = Inr ((rest, 0), p))"
  using deku_io.packet_to_bytes_wire[OF assms] deku_io.length_wire[OF assms]
    deku_io.packet_from_bytes_iff[OF assms(1)] assms(2) by blast

text \<open>The packet of \<open>tests/packets.rs\<close>.\<close>

definition test_packet :: packet where
  "test_packet = Request \<lparr>rq_reserved = 0, rq_command = Heartbeat, rq_id = 1, rq_timeout = 2,
     rq_body_len = 3, rq_body = [0x00, 0x01, 0x02]\<rparr>"

lemma test_packet_wf: "wf_packet test_packet"
  by (simp add: test_packet_def wf_body_def)

theorem packet_roundtrip_witness:
  "\<exists>b. packet_to_bytes wr_msb test_packet = Inr b \<and> length b = total_bytes test_packet
    \<and> (\<forall>rest. packet_from_bytes rd_msb (b @ rest, 0) = Inr ((rest, 0), test_packet))"
  by (rule packet_roundtrip[OF msb.deku_io_axioms test_packet_wf])

text \<open>C22: The encoding is canonical.  Whatever bytes a packet is decoded from, the packet is
  well formed and encodes back to exactly the bytes that were consumed.\<close>

theorem packet_from_bytes_canonical:
  assumes "deku_io rd wr" and "packet_from_bytes rd (input, 0) = Inr ((rest, c), p)"
  shows "wf_packet p \<and> c = 0 \<and> (\<exists>b. packet_to_bytes wr p = Inr b \<and> input = b @ rest)"
  using assms deku_io.packet_from_bytes_iff[OF assms(1)] deku_io.packet_to_bytes_wire[OF assms(1)]
  by auto

definition test_bytes :: bytes where
  "test_bytes = [0x01, 0x00, 0x00, 0x01, 0x02, 0x00, 0x00, 0x03, 0x00, 0x01, 0x02,
     0x10, 0x11, 0x12]"

lemma test_bytes_decode:
  "packet_from_bytes rd_msb (test_bytes, 0) = Inr (([0x10, 0x11, 0x12], 0), test_packet)"
  by code_simp

theorem packet_from_bytes_canonical_witness:
  "wf_packet test_packet
   \<and> (\<exists>b. packet_to_bytes wr_msb test_packet = Inr b \<and> test_bytes = b @ [0x10, 0x11, 0x12])"
  using packet_from_bytes_canonical[OF msb.deku_io_axioms test_bytes_decode] by blast

text \<open>The header is enough to size the packet.  On any bytes, if a header is read and as
  many bytes are there as it asks for, then the whole packet is read, has the size that the
  header announced, and leaves the bytes behind it.\<close>

lemma header_sizes_packet:
  assumes "deku_io rd wr" and "header_from_bytes rd (input, 0) = Inr (pos, h)"
    and "need_bytes h \<le> length input"
  shows "\<exists>p. packet_from_bytes rd (input, 0) = Inr ((drop (need_bytes h) input, 0), p)
    \<and> total_bytes p = need_bytes h"
proof -
  obtain p rest where p: "packet_from_bytes rd (input, 0) = Inr ((rest, 0), p)"
    and "header_of p = h"
    using deku_io.header_then_packet[OF assms] by blast
  then have size: "total_bytes p = need_bytes h" by auto
  from p have "wf_packet p" and input: "input = deku_io.wire wr p @ rest"
    by (auto simp: deku_io.packet_from_bytes_iff[OF assms(1)])
  then have "length (deku_io.wire wr p) = need_bytes h"
    using deku_io.length_wire[OF assms(1)] size by simp
  then have "rest = drop (need_bytes h) input" using input by simp
  with p size show ?thesis by blast
qed

lemma test_bytes_header:
  "header_from_bytes rd_msb (test_bytes, 0) =
     Inr (([0x00, 0x01, 0x02, 0x10, 0x11, 0x12], 0), header_of test_packet)"
  by code_simp

lemma header_sizes_packet_witness:
  "\<exists>p. packet_from_bytes rd_msb (test_bytes, 0) = Inr (([0x10, 0x11, 0x12], 0), p)
    \<and> total_bytes p = 11"
proof -
  have "need_bytes (header_of test_packet) = 11" by code_simp
  moreover have "length test_bytes = 14" "drop 11 test_bytes = [0x10, 0x11, 0x12]"
    by (simp_all add: test_bytes_def)
  ultimately show ?thesis
    using header_sizes_packet[OF msb.deku_io_axioms test_bytes_header] by simp
qed

text \<open>The layout is the documented one.  Most significant bit first, the heartbeat request
  of the repository's own test encodes to the test's eleven bytes (type and command in the
  first byte, a 24-bit request id, the timeout, a 24-bit body length, the body), and the
  fourteen bytes of the test decode to it with three bytes left over.\<close>

lemma packet_test_vector:
  "packet_to_bytes wr_msb test_packet = Inr (take 11 test_bytes)
   \<and> packet_from_bytes rd_msb (test_bytes, 0) = Inr (([0x10, 0x11, 0x12], 0), test_packet)"
  by code_simp

end
