(* ===== verification/Link_Loops.thy ===== *)
theory Link_Loops
  imports Simple_Buf Wire
begin

text \<open>
  The application-level loops of \<open>link/src/transport/link.rs\<close>: \<open>parse_packet_buf\<close>,
  \<open>link_read_loop\<close> and \<open>link_write_loop\<close>.  Each loop is a step function on the loop's local
  variables together with its output channel; the events are the values its input channel
  yields (\<open>None\<close> is the closed channel).  Logging and the cost metrics are left out.
\<close>

section \<open>Parsing the buffered bytes\<close>

datatype link_loop_error =
  HeaderParseFailed deku_error
| PacketParseFailed deku_error
| ResponseTxClosed
| PacketBufferFull usize usize
| PacketBufferError buf_error
| QuicDataRecvClosed
| PacketToBytesFailed deku_error
| QuicDataSendClosed
| RequestRxClosed

text \<open>
  The local variables of \<open>parse_packet_buf\<close> are the arguments of the loop: the slice still
  to be parsed with its bit cursor, \<open>occupied_bytes\<close> and \<open>consumed_bytes\<close>.  \<open>need_size\<close> is
  \<open>MIN_PACKET_HEADER_SIZE\<close> at the head of every turn.  \<open>occupied_bytes -= packet_size\<close> is a
  checked subtraction, and its result bounds the number of turns.
\<close>

type_synonym parse_result = "(link_loop_error, usize \<times> usize) res \<times> packet chan"

function parse_loop ::
    "bit_read \<Rightarrow> bytes \<Rightarrow> nat \<Rightarrow> usize \<Rightarrow> usize \<Rightarrow> packet chan \<Rightarrow> parse_result" where
  "parse_loop rd packet_buffer cursor occupied_bytes consumed_bytes response_tx =
     (case header_from_bytes rd (packet_buffer, cursor) of
        Inl DekuIncomplete \<Rightarrow> (Inr (consumed_bytes, MIN_PACKET_HEADER_SIZE), response_tx)
      | Inl e \<Rightarrow> (Inl (Err (HeaderParseFailed e)), response_tx)
      | Inr (_, header) \<Rightarrow>
          if occupied_bytes < need_bytes header
          then (Inr (consumed_bytes, need_bytes header), response_tx)
          else (case packet_from_bytes rd (packet_buffer, cursor) of
              Inl DekuIncomplete \<Rightarrow> (Inr (consumed_bytes, MIN_PACKET_HEADER_SIZE), response_tx)
            | Inl e \<Rightarrow> (Inl (Err (PacketParseFailed e)), response_tx)
            | Inr ((rest, i), packet) \<Rightarrow>
                if occupied_bytes < total_bytes packet then (Inl Panic, response_tx)
                else (case chan_send packet response_tx of
                    None \<Rightarrow> (Inl (Err ResponseTxClosed), response_tx)
                  | Some response_tx' \<Rightarrow>
                      parse_loop rd rest i (occupied_bytes - total_bytes packet)
                        (consumed_bytes + total_bytes packet) response_tx')))"
  by pat_completeness auto
termination
proof (relation "measure (\<lambda>(rd, buf, cursor, occupied, consumed, tx). occupied)", goal_cases)
  case 1
  show ?case by simp
next
  case 2
  then show ?case by (simp add: not_less minus_total_bytes_less)
qed

declare parse_loop.simps [simp del]

definition parse_packet_buf :: "bit_read \<Rightarrow> packet chan \<Rightarrow> bytes \<Rightarrow> parse_result" where
  "parse_packet_buf rd response_tx packet_buffer =
     parse_loop rd packet_buffer 0 (length packet_buffer) 0 response_tx"

section \<open>The read loop\<close>

record read_state =
  packet_buffer :: simple_buf
  need_size :: usize
  response_tx :: "packet chan"

definition link_read_init :: "usize \<Rightarrow> packet chan \<Rightarrow> read_state" where
  "link_read_init stream_read_buffer_size tx =
     \<lparr>packet_buffer = sb_new stream_read_buffer_size, need_size = MIN_PACKET_HEADER_SIZE,
      response_tx = tx\<rparr>"

fun buf_fault :: "buf_error fault \<Rightarrow> link_loop_error fault" where
  "buf_fault Panic = Panic"
| "buf_fault (Err e) = Err (PacketBufferError e)"

type_synonym read_ctl = "(link_loop_error fault, read_state) ctl"

definition link_read_parse :: "bit_read \<Rightarrow> read_state \<Rightarrow> read_ctl" where
  "link_read_parse rd s =
     (case sb_occupied_slice (packet_buffer s) of
        Inl e \<Rightarrow> Break (buf_fault e) s
      | Inr occupied \<Rightarrow>
          (case parse_packet_buf rd (response_tx s) occupied of
             (Inl e, tx) \<Rightarrow> Break e (s\<lparr>response_tx := tx\<rparr>)
           | (Inr (c, n), tx) \<Rightarrow>
               (case sb_free (packet_buffer s) c of
                  Inl e \<Rightarrow> Break (buf_fault e) (s\<lparr>response_tx := tx\<rparr>)
                | Inr buf \<Rightarrow>
                    Continue (s\<lparr>packet_buffer := buf, need_size := n, response_tx := tx\<rparr>))))"

definition link_read_step :: "bit_read \<Rightarrow> bytes \<Rightarrow> read_state \<Rightarrow> read_ctl" where
  "link_read_step rd b s =
     (case sb_make_room (packet_buffer s) (length b) of
        Inl e \<Rightarrow> Break (buf_fault e) s
      | Inr (Inl max_len) \<Rightarrow> Break (Err (PacketBufferFull max_len (length b))) s
      | Inr (Inr buf) \<Rightarrow>
          (case sb_push_slice buf b of
             Inl e \<Rightarrow> Break (buf_fault e) (s\<lparr>packet_buffer := buf\<rparr>)
           | Inr buf' \<Rightarrow>
               let s' = s\<lparr>packet_buffer := buf'\<rparr> in
               (case sb_len buf' of
                  Inl e \<Rightarrow> Break (buf_fault e) s'
                | Inr l \<Rightarrow>
                    ctl_then (if l \<ge> need_size s' then link_read_parse rd s' else Continue s')
                      (\<lambda>t. case sb_reuse_if (packet_buffer t) of
                             Inl e \<Rightarrow> Break (buf_fault e) t
                           | Inr (_, buf'') \<Rightarrow> Continue (t\<lparr>packet_buffer := buf''\<rparr>)))))"

fun link_read_event :: "bit_read \<Rightarrow> bytes option \<Rightarrow> read_state \<Rightarrow> read_ctl" where
  "link_read_event rd (Some b) s = link_read_step rd b s"
| "link_read_event rd None s = Break (Err QuicDataRecvClosed) s"

definition link_read_loop :: "bit_read \<Rightarrow> bytes option list \<Rightarrow> read_state \<Rightarrow> read_ctl" where
  "link_read_loop rd = run_loop (link_read_event rd)"

section \<open>The write loop\<close>

type_synonym write_ctl = "(link_loop_error fault, bytes chan) ctl"

fun link_write_event :: "bit_write \<Rightarrow> packet option \<Rightarrow> bytes chan \<Rightarrow> write_ctl" where
  "link_write_event wr (Some packet) quic_data_send_tx =
     (case packet_to_bytes wr packet of
        Inl e \<Rightarrow> Break (Err (PacketToBytesFailed e)) quic_data_send_tx
      | Inr data \<Rightarrow>
          (case chan_send data quic_data_send_tx of
             None \<Rightarrow> Break (Err QuicDataSendClosed) quic_data_send_tx
           | Some tx \<Rightarrow> Continue tx))"
| "link_write_event wr None quic_data_send_tx = Break (Err RequestRxClosed) quic_data_send_tx"

definition link_write_loop :: "bit_write \<Rightarrow> packet option list \<Rightarrow> bytes chan \<Rightarrow> write_ctl" where
  "link_write_loop wr = run_loop (link_write_event wr)"

end
