(* ===== verification/Link_Laws.thy ===== *)
theory Link_Laws
  imports Wire_Laws Link_Loops
begin

text \<open>
  The framing theorems: what the read loop delivers, stated against the stream of packets
  whose encodings its input chunks cut up.  \<open>received n ps\<close> is the specification: the packets
  of the stream \<open>ps\<close> whose encodings lie completely within its first \<open>n\<close> bytes.
\<close>

section \<open>The specification\<close>

fun received :: "nat \<Rightarrow> packet list \<Rightarrow> packet list" where
  "received n [] = []"
| "received n (p # ps) =
     (if total_bytes p \<le> n then p # received (n - total_bytes p) ps else [])"

definition not_received :: "nat \<Rightarrow> packet list \<Rightarrow> packet list" where
  "not_received n ps = drop (length (received n ps)) ps"

definition stream_size :: "packet list \<Rightarrow> nat" where
  "stream_size ps = sum_list (map total_bytes ps)"

definition next_size :: "packet list \<Rightarrow> nat" where
  "next_size ps = (case ps of [] \<Rightarrow> MIN_PACKET_HEADER_SIZE | p # _ \<Rightarrow> total_bytes p)"

definition pending :: "nat \<Rightarrow> packet list \<Rightarrow> nat" where
  "pending n ps = n - stream_size (received n ps)"

lemma stream_size_simps [simp]:
  "stream_size [] = 0" "stream_size (p # ps) = total_bytes p + stream_size ps"
  "stream_size (ps @ qs) = stream_size ps + stream_size qs"
  by (simp_all add: stream_size_def)

lemma received_prefix: "ps = received n ps @ not_received n ps"
  unfolding not_received_def
  by (induction ps arbitrary: n) auto

lemma not_received_Cons:
  "not_received n (p # ps) =
     (if total_bytes p \<le> n then not_received (n - total_bytes p) ps else p # ps)"
  by (simp add: not_received_def)

lemma not_received_Nil [simp]: "not_received n [] = []"
  by (simp add: not_received_def)

lemma stream_size_received: "stream_size (received n ps) \<le> n"
proof (induction ps arbitrary: n)
  case (Cons p ps)
  from Cons[of "n - total_bytes p"] show ?case by auto
qed simp

lemma received_all: "stream_size ps \<le> n \<Longrightarrow> received n ps = ps"
  by (induction ps arbitrary: n) auto

lemma received_add:
  "received (n + m) ps =
     received n ps @ received (pending n ps + m) (not_received n ps)"
proof (induction ps arbitrary: n)
  case (Cons p ps)
  show ?case
  proof (cases "total_bytes p \<le> n")
    case True
    then have "received (n + m) (p # ps) = p # received ((n - total_bytes p) + m) ps" by simp
    also have "\<dots> = p # received (n - total_bytes p) ps
        @ received (pending (n - total_bytes p) ps + m) (not_received (n - total_bytes p) ps)"
      by (simp only: Cons)
    finally show ?thesis using True by (simp add: not_received_Cons pending_def)
  qed (simp add: not_received_Cons pending_def)
qed simp

lemma received_pending: "received (pending n ps) (not_received n ps) = []"
  using received_add[of n 0 ps] by simp

lemma pending_add: "pending (n + m) ps = pending (pending n ps + m) (not_received n ps)"
  using stream_size_received[of n ps]
  by (simp add: pending_def received_add[of n m ps])

lemma not_received_add:
  "not_received (n + m) ps = not_received (pending n ps + m) (not_received n ps)"
    (is "_ = ?tail")
proof -
  have "ps = (received n ps @ received (pending n ps + m) (not_received n ps)) @ ?tail"
    by (metis received_prefix append_assoc)
  then have "drop (length (received (n + m) ps)) ps = ?tail"
    by (metis received_add append_eq_conv_conj)
  then show ?thesis by (simp add: not_received_def[of "n + m"])
qed

lemma received_Nil_iff: "received n ps = [] \<longleftrightarrow> ps = [] \<or> n < next_size ps"
  by (cases ps) (auto simp: next_size_def)

lemma min_le_next_size: "MIN_PACKET_HEADER_SIZE \<le> next_size ps"
  using total_bytes_ge by (cases ps) (auto simp: next_size_def)

text \<open>
  A condition on the chunks under which the reader never runs out of room: each chunk is
  longer than the bytes pending before it, and fits the capacity beside them.
\<close>

fun chunks_fit :: "nat \<Rightarrow> packet list \<Rightarrow> nat \<Rightarrow> bytes list \<Rightarrow> bool" where
  "chunks_fit cap qs k [] = True"
| "chunks_fit cap qs k (b # bs) =
     (k < length b \<and> k + length b \<le> cap
      \<and> chunks_fit cap (not_received (k + length b) qs) (pending (k + length b) qs) bs)"

fun packets_to_bytes :: "bit_write \<Rightarrow> packet list \<Rightarrow> deku_error + bytes" where
  "packets_to_bytes wr [] = Inr []"
| "packets_to_bytes wr (p # ps) =
     and_then (packet_to_bytes wr p) (\<lambda>b. and_then (packets_to_bytes wr ps) (\<lambda>bs. Inr (b @ bs)))"

fun buffer_overflow :: "link_loop_error \<Rightarrow> bool" where
  "buffer_overflow (PacketBufferFull m n) \<longleftrightarrow> m < n"
| "buffer_overflow (PacketBufferError (VacantShort m n)) \<longleftrightarrow> m < n"
| "buffer_overflow _ \<longleftrightarrow> False"

context deku_io
begin

definition wires :: "packet list \<Rightarrow> bytes" where
  "wires ps = concat (map wire ps)"

lemma wires_simps [simp]:
  "wires [] = []" "wires (p # ps) = wire p @ wires ps" "wires (ps @ qs) = wires ps @ wires qs"
  by (simp_all add: wires_def)

lemma length_wires: "\<forall>p \<in> set ps. wf_packet p \<Longrightarrow> length (wires ps) = stream_size ps"
  by (induction ps) (auto simp: length_wire)

lemma header_from_empty: "header_from_bytes rd ([], 0) = Inl DekuIncomplete"
  by (simp add: header_from_bytes_def from_bytes_def read_packet_header_def rbind_def rd_short)

lemma drop_total_wire: "wf_packet p \<Longrightarrow> drop (total_bytes p) (wire p @ bs) = bs"
  by (simp add: length_wire[symmetric])

section \<open>The parser on a packet stream\<close>

text \<open>
  The buffered bytes are the beginning of a stream of well-formed packets: the parser sends
  exactly the complete ones, consumes exactly their bytes, and asks for no more than the next
  packet needs.
\<close>

lemma parse_loop_stream:
  assumes "\<forall>p \<in> set ps. wf_packet p" and "input @ ext = wires ps"
  shows "\<exists>need. need \<le> next_size (not_received (length input) ps) \<and>
    parse_loop rd input 0 (length input) c tx =
      (case chan_send_all (received (length input) ps) tx of
         (True, tx') \<Rightarrow> (Inr (c + stream_size (received (length input) ps), need), tx')
       | (False, tx') \<Rightarrow> (Inl (Err ResponseTxClosed), tx'))"
  using assms
proof (induction ps arbitrary: input c tx)
  case Nil
  then show ?case using min_le_next_size
    by (auto simp: parse_loop.simps header_from_empty)
next
  case (Cons p ps)
  then have wf: "wf_packet p" and eq: "input @ ext = wire p @ wires ps" by auto
  note hdr = header_from_prefix[OF wf eq]
  show ?case
  proof (cases "total_bytes p \<le> length input")
    case True
    define input' where "input' = drop (total_bytes p) input"
    have "take (total_bytes p) input = wire p"
      using arg_cong[OF eq, of "take (total_bytes p)"] True length_wire[OF wf] by simp
    then have input: "input = wire p @ input'"
      unfolding input'_def by (metis append_take_drop_id)
    then have rest: "input' @ ext = wires ps" using eq by simp
    have len: "length input = total_bytes p + length input'"
      using input length_wire[OF wf] by simp
    obtain pos where h: "header_from_bytes rd (input, 0) = Inr (pos, header_of p)"
      using hdr True total_bytes_wf[OF wf] by auto
    have pkt: "packet_from_bytes rd (input, 0) = Inr ((input', 0), p)"
      using packet_from_bytes_iff wf input by blast
    show ?thesis
    proof (cases "chan_send p tx")
      case None
      then show ?thesis using True h pkt min_le_next_size
        by (auto simp: parse_loop.simps[of rd input] not_less)
    next
      case (Some tx')
      have "\<forall>p \<in> set ps. wf_packet p" using Cons.prems by simp
      from Cons.IH[OF this rest, of "c + total_bytes p" tx'] show ?thesis
        using True h pkt Some len
        by (auto simp: parse_loop.simps[of rd input] not_less not_received_Cons add.assoc
            split: prod.splits bool.splits)
    qed
  next
    case False
    then have none: "received (length input) (p # ps) = []"
      and nxt: "next_size (not_received (length input) (p # ps)) = total_bytes p"
      by (simp_all add: not_received_Cons next_size_def)
    show ?thesis
    proof (cases "header_size p \<le> length input")
      case True
      then show ?thesis using hdr False none nxt
        by (auto simp: parse_loop.simps[of rd input] not_le)
    next
      case hf: False
      then show ?thesis using hdr none nxt total_bytes_ge[of p]
        by (auto simp: parse_loop.simps[of rd input])
    qed
  qed
qed

section \<open>One turn of the read loop\<close>

text \<open>
  The loop invariant against the rest \<open>qs\<close> of the stream, of which \<open>ext\<close> is still to come:
  the buffer holds its beginning, no packet of it is complete, and \<open>need_size\<close> asks for no
  more than its first packet needs.
\<close>

definition framed :: "packet list \<Rightarrow> bytes \<Rightarrow> read_state \<Rightarrow> bool" where
  "framed qs ext s \<longleftrightarrow>
     sb_inv (packet_buffer s) \<and> (\<forall>p \<in> set qs. wf_packet p)
     \<and> sb_bytes (packet_buffer s) @ ext = wires qs \<and> need_size s \<le> next_size qs
     \<and> received (length (sb_bytes (packet_buffer s))) qs = [] \<and> chan_live (response_tx s)"

lemma framed_init:
  assumes "cap < usize_bound" and "\<forall>p \<in> set qs. wf_packet p" and "chan_live tx"
  shows "framed qs (wires qs) (link_read_init cap tx)"
  using assms min_le_next_size total_bytes_pos
  by (auto simp: framed_def link_read_init_def sb_new_inv received_Nil_iff next_size_def
      split: list.split)

definition push_fits :: "read_state \<Rightarrow> nat \<Rightarrow> bool" where
  "push_fits s n \<longleftrightarrow> n \<le> room_after_make_room (packet_buffer s) n"

lemma not_received_wf: "\<forall>p \<in> set qs. wf_packet p \<Longrightarrow> \<forall>p \<in> set (not_received n qs). wf_packet p"
  by (auto simp: not_received_def dest: in_set_dropD)

lemma wires_split: "wires qs = wires (received n qs) @ wires (not_received n qs)"
  by (metis received_prefix wires_simps(3))

lemma link_read_parse_stream:
  assumes inv: "sb_inv (packet_buffer s)" and wf: "\<forall>p \<in> set qs. wf_packet p"
    and stream: "sb_bytes (packet_buffer s) @ ext = wires qs" and live: "chan_live (response_tx s)"
  defines "n \<equiv> length (sb_bytes (packet_buffer s))"
  obtains s' where "link_read_parse rd s = Continue s'" "framed (not_received n qs) ext s'"
    "capacity (packet_buffer s') = capacity (packet_buffer s)"
    "length (sb_bytes (packet_buffer s')) = pending n qs"
    "response_tx s' = (response_tx s)\<lparr>ch_sent := ch_sent (response_tx s) @ received n qs\<rparr>"
proof -
  let ?buf = "packet_buffer s" and ?done = "stream_size (received n qs)"
  let ?tx = "(response_tx s)\<lparr>ch_sent := ch_sent (response_tx s) @ received n qs\<rparr>"
  obtain need where need: "need \<le> next_size (not_received n qs)"
    and parse: "parse_packet_buf rd (response_tx s) (sb_bytes ?buf) = (Inr (?done, need), ?tx)"
    using parse_loop_stream[OF wf stream, of 0 "response_tx s"]
    by (auto simp: parse_packet_buf_def n_def chan_send_all_live[OF live])
  have done_le: "?done \<le> n" by (rule stream_size_received)
  obtain buf' where free: "sb_free ?buf ?done = Inr buf'" and inv': "sb_inv buf'"
    and bytes': "sb_bytes buf' = drop ?done (sb_bytes ?buf)" and cap': "capacity buf' = capacity ?buf"
    using sb_free_spec[OF inv] done_le n_def by metis
  have "length (wires (received n qs)) = ?done"
    using wf received_prefix[of qs n] by (intro length_wires) (metis Un_iff set_append)
  then have rest: "sb_bytes buf' @ ext = wires (not_received n qs)"
    using stream wires_split[of qs n] done_le
    by (simp add: bytes' n_def append_eq_append_conv_if split: if_splits)
  let ?s = "s\<lparr>packet_buffer := buf', need_size := need, response_tx := ?tx\<rparr>"
  have len': "length (sb_bytes buf') = pending n qs" by (simp add: bytes' pending_def n_def)
  have "link_read_parse rd s = Continue ?s"
    by (simp add: link_read_parse_def sb_specs inv parse free)
  moreover have "framed (not_received n qs) ext ?s"
    using inv' rest need live wf len' received_pending
    by (simp add: framed_def not_received_wf)
  ultimately show ?thesis using that len' cap' by simp
qed

lemma link_read_step_fits:
  assumes framed: "framed qs (b @ ext) s" and fits: "push_fits s (length b)"
  defines "n \<equiv> length (sb_bytes (packet_buffer s)) + length b"
  obtains s' where "link_read_step rd b s = Continue s'" "framed (not_received n qs) ext s'"
    "capacity (packet_buffer s') = capacity (packet_buffer s)"
    "length (sb_bytes (packet_buffer s')) = pending n qs"
    "response_tx s' = (response_tx s)\<lparr>ch_sent := ch_sent (response_tx s) @ received n qs\<rparr>"
proof -
  let ?buf = "packet_buffer s"
  from framed have inv: "sb_inv ?buf" and wf: "\<forall>p \<in> set qs. wf_packet p"
    and stream: "sb_bytes ?buf @ b @ ext = wires qs" and need: "need_size s \<le> next_size qs"
    and live: "chan_live (response_tx s)"
    by (auto simp: framed_def)
  obtain buf1 where room: "sb_make_room ?buf (length b) = Inr (Inr buf1)" and inv1: "sb_inv buf1"
    and bytes1: "sb_bytes buf1 = sb_bytes ?buf" and cap1: "capacity buf1 = capacity ?buf"
    and room1: "sb_room buf1 = room_after_make_room ?buf (length b)"
    by (rule sb_make_room_fits[OF inv, of "length b"])
      (use fits in \<open>auto simp: push_fits_def room_after_make_room_def\<close>)
  have "length b \<le> sb_room buf1" using fits room1 by (simp add: push_fits_def)
  then obtain buf2 where push: "sb_push_slice buf1 b = Inr buf2" and inv2: "sb_inv buf2"
    and bytes2: "sb_bytes buf2 = sb_bytes ?buf @ b" and cap2: "capacity buf2 = capacity ?buf"
    using sb_push_slice_spec[OF inv1] bytes1 cap1 by metis
  let ?s = "s\<lparr>packet_buffer := buf2\<rparr>"
  let ?body = "if need_size s \<le> n then link_read_parse rd ?s else Continue ?s"
  have step: "link_read_step rd b s = ctl_then ?body
      (\<lambda>t. case sb_reuse_if (packet_buffer t) of
             Inl e \<Rightarrow> Break (buf_fault e) t
           | Inr (_, buf'') \<Rightarrow> Continue (t\<lparr>packet_buffer := buf''\<rparr>))"
    by (simp add: link_read_step_def room push sb_specs inv2 bytes2 n_def Let_def)
  have stream2: "sb_bytes (packet_buffer ?s) @ ext = wires qs" using stream by (simp add: bytes2)
  obtain t where body: "?body = Continue t" and framed_t: "framed (not_received n qs) ext t"
    and cap_t: "capacity (packet_buffer t) = capacity ?buf"
    and len_t: "length (sb_bytes (packet_buffer t)) = pending n qs"
    and tx_t: "response_tx t
      = (response_tx s)\<lparr>ch_sent := ch_sent (response_tx s) @ received n qs\<rparr>"
  proof (cases "need_size s \<le> n")
    case True
    have n_eq: "length (sb_bytes (packet_buffer ?s)) = n" by (simp add: bytes2 n_def)
    show ?thesis
      by (rule link_read_parse_stream[of ?s qs ext])
        (use inv2 wf stream2 live cap2 n_eq True in \<open>auto intro!: that\<close>)
  next
    case False
    then have none: "received n qs = []" using need by (simp add: received_Nil_iff)
    then have same: "not_received n qs = qs" "pending n qs = n"
      by (simp_all add: not_received_def pending_def)
    show ?thesis
      by (rule that[of ?s])
        (use False none same inv2 wf stream2 live cap2 need bytes2 n_def in
          \<open>auto simp: framed_def\<close>)
  qed
  from framed_t have inv_t: "sb_inv (packet_buffer t)" by (simp add: framed_def)
  obtain r buf3 where "sb_reuse_if (packet_buffer t) = Inr (r, buf3)" "sb_inv buf3"
    "sb_bytes buf3 = sb_bytes (packet_buffer t)" "capacity buf3 = capacity (packet_buffer t)"
    using sb_reuse_if_spec[OF inv_t] by metis
  then show ?thesis
    using that[of "t\<lparr>packet_buffer := buf3\<rparr>"] framed_t cap_t len_t tx_t
    by (simp add: step body framed_def)
qed

lemma link_read_step_overflow:
  assumes inv: "sb_inv (packet_buffer s)" and full: "\<not> push_fits s (length b)"
  obtains e s' where "link_read_step rd b s = Break (Err e) s'" "response_tx s' = response_tx s"
    "buffer_overflow e"
proof (cases rule: sb_make_room_cases[OF inv, of "length b"])
  case 1
  then show ?thesis using that[of _ s] by (simp add: link_read_step_def)
next
  case (2 buf)
  then have "sb_room buf < length b" using full by (simp add: push_fits_def)
  moreover have "\<not> length (sb_bytes (packet_buffer s)) < length b"
    using full 2(1) sb_make_room_full[OF inv, of "length b"]
    by (auto simp: push_fits_def room_after_make_room_def)
  ultimately show ?thesis
    using 2 that[of _ "s\<lparr>packet_buffer := buf\<rparr>"]
    by (simp add: link_read_step_def sb_specs room_after_make_room_def)
qed

section \<open>The read loop on a packet stream\<close>

lemma packets_to_bytes_wires:
  "\<forall>p \<in> set ps. wf_packet p \<Longrightarrow> packets_to_bytes wr ps = Inr (wires ps)"
  by (induction ps) (auto simp: packet_to_bytes_wire)

lemma link_read_loop_Cons:
  "link_read_loop rd (Some b # evs) s
     = ctl_then (link_read_step rd b s) (link_read_loop rd evs)"
  by (simp add: link_read_loop_def)

lemma link_read_loop_fits:
  assumes "framed qs (concat bs @ ext) s"
    and "chunks_fit (capacity (packet_buffer s)) qs (length (sb_bytes (packet_buffer s))) bs"
  defines "n \<equiv> length (sb_bytes (packet_buffer s)) + length (concat bs)"
  shows "\<exists>s'. link_read_loop rd (map Some bs) s = Continue s' \<and> framed (not_received n qs) ext s'
    \<and> length (sb_bytes (packet_buffer s')) = pending n qs
    \<and> response_tx s' = (response_tx s)\<lparr>ch_sent := ch_sent (response_tx s) @ received n qs\<rparr>"
  using assms(1,2) unfolding n_def
proof (induction bs arbitrary: qs s)
  case Nil
  then have "received (length (sb_bytes (packet_buffer s))) qs = []" by (simp add: framed_def)
  with Nil show ?case
    by (simp add: link_read_loop_def not_received_def pending_def)
next
  case (Cons b bs)
  let ?k = "length (sb_bytes (packet_buffer s))"
  from Cons.prems have framed: "framed qs (b @ concat bs @ ext) s"
    and fit: "?k < length b" "?k + length b \<le> capacity (packet_buffer s)" by simp_all
  then have "push_fits s (length b)" by (simp add: push_fits_def room_after_make_room_def)
  then obtain s1 where step: "link_read_step rd b s = Continue s1"
    and framed1: "framed (not_received (?k + length b) qs) (concat bs @ ext) s1"
    and cap1: "capacity (packet_buffer s1) = capacity (packet_buffer s)"
    and len1: "length (sb_bytes (packet_buffer s1)) = pending (?k + length b) qs"
    and tx1: "response_tx s1 = (response_tx s)\<lparr>ch_sent := ch_sent (response_tx s)
        @ received (?k + length b) qs\<rparr>"
    using link_read_step_fits[OF framed] by metis
  have "chunks_fit (capacity (packet_buffer s1)) (not_received (?k + length b) qs)
      (length (sb_bytes (packet_buffer s1))) bs"
    using Cons.prems(2) cap1 len1 by simp
  from Cons.IH[OF framed1 this] show ?case
    unfolding list.map link_read_loop_Cons step len1
    using received_add[of "?k + length b" "length (concat bs)" qs]
      pending_add[of "?k + length b" "length (concat bs)" qs]
      not_received_add[of "?k + length b" "length (concat bs)" qs]
    by (simp add: tx1 add.assoc)
qed

lemma link_read_loop_any:
  assumes "framed qs (concat bs @ ext) s"
  shows "\<exists>k \<le> length bs. \<exists>s'. ch_sent (response_tx s') = ch_sent (response_tx s)
      @ received (length (sb_bytes (packet_buffer s)) + length (concat (take k bs))) qs
    \<and> (k = length bs \<and> link_read_loop rd (map Some bs) s = Continue s'
       \<or> k < length bs \<and> (\<exists>e. buffer_overflow e
            \<and> link_read_loop rd (map Some bs) s = Break (Err e) s'))"
  using assms
proof (induction bs arbitrary: qs s)
  case Nil
  then show ?case by (auto simp: link_read_loop_def framed_def)
next
  case (Cons b bs)
  let ?k = "length (sb_bytes (packet_buffer s))"
  from Cons.prems have framed: "framed qs (b @ concat bs @ ext) s" by simp
  then have inv: "sb_inv (packet_buffer s)" and none: "received ?k qs = []"
    by (auto simp: framed_def)
  show ?case
  proof (cases "push_fits s (length b)")
    case False
    obtain e s1 where "link_read_step rd b s = Break (Err e) s1"
      and "response_tx s1 = response_tx s" and "buffer_overflow e"
      using link_read_step_overflow[OF inv False] by metis
    then show ?thesis
      unfolding list.map link_read_loop_Cons using none by (intro exI[of _ 0]) auto
  next
    case True
    then obtain s1 where step: "link_read_step rd b s = Continue s1"
      and framed1: "framed (not_received (?k + length b) qs) (concat bs @ ext) s1"
      and len1: "length (sb_bytes (packet_buffer s1)) = pending (?k + length b) qs"
      and tx1: "response_tx s1 = (response_tx s)\<lparr>ch_sent := ch_sent (response_tx s)
          @ received (?k + length b) qs\<rparr>"
      using link_read_step_fits[OF framed] by metis
    from Cons.IH[OF framed1] obtain j s' where j: "j \<le> length bs"
      and sent: "ch_sent (response_tx s') = ch_sent (response_tx s1)
        @ received (pending (?k + length b) qs + length (concat (take j bs)))
            (not_received (?k + length b) qs)"
      and res: "j = length bs \<and> link_read_loop rd (map Some bs) s1 = Continue s'
         \<or> j < length bs \<and> (\<exists>e. buffer_overflow e
              \<and> link_read_loop rd (map Some bs) s1 = Break (Err e) s')"
      unfolding len1 by blast
    have "ch_sent (response_tx s') = ch_sent (response_tx s)
        @ received (?k + length (concat (take (Suc j) (b # bs)))) qs"
      using sent received_add[of "?k + length b" "length (concat (take j bs))" qs]
      by (simp add: tx1 add.assoc)
    with j res show ?thesis
      unfolding list.map link_read_loop_Cons step by (intro exI[of _ "Suc j"]) auto
  qed
qed

section \<open>The read loop on arbitrary bytes\<close>

text \<open>
  No assumption on the input: whatever bytes arrive and whenever the consumer goes away, what
  is delivered are well-formed packets whose encodings are, in order, the beginning of the
  bytes received, and nothing panics.
\<close>

definition faithful :: "packet list \<Rightarrow> bytes \<Rightarrow> packet chan \<Rightarrow> bytes \<Rightarrow> bool" where
  "faithful old got tx rest \<longleftrightarrow> (\<exists>qs. ch_sent tx = old @ qs \<and> (\<forall>q \<in> set qs. wf_packet q)
     \<and> got = wires qs @ rest)"

lemma faithful_append: "faithful old got tx rest \<Longrightarrow> faithful old (got @ b) tx (rest @ b)"
  by (auto simp: faithful_def)

lemma faithful_trans:
  assumes "faithful old got tx mid" and "faithful (ch_sent tx) mid tx' rest"
  shows "faithful old got tx' rest"
proof -
  from assms(1) obtain ps where "ch_sent tx = old @ ps" "\<forall>q \<in> set ps. wf_packet q"
    "got = wires ps @ mid" by (auto simp: faithful_def)
  moreover from assms(2) obtain qs where "ch_sent tx' = ch_sent tx @ qs"
    "\<forall>q \<in> set qs. wf_packet q" "mid = wires qs @ rest" by (auto simp: faithful_def)
  ultimately show ?thesis unfolding faithful_def by (intro exI[of _ "ps @ qs"]) auto
qed

lemma faithful_refl: "faithful (ch_sent tx) got tx got"
  by (auto simp: faithful_def)

lemma parse_loop_any:
  assumes "parse_loop rd input 0 (length input) c tx = (r, tx')"
  shows "r \<noteq> Inl Panic \<and> (\<exists>k \<le> length input. faithful (ch_sent tx) input tx' (drop k input)
    \<and> (\<forall>d n. r = Inr (d, n) \<longrightarrow> d = c + k))"
  using assms
proof (induction input arbitrary: c tx rule: length_induct)
  case (1 input)
  show ?case
  proof (cases "\<exists>pos h p rest tx1. header_from_bytes rd (input, 0) = Inr (pos, h)
      \<and> need_bytes h \<le> length input \<and> packet_from_bytes rd (input, 0) = Inr ((rest, 0), p)
      \<and> header_of p = h \<and> chan_send p tx = Some tx1")
    case True
    then obtain pos h p rest tx1 where h: "header_from_bytes rd (input, 0) = Inr (pos, h)"
      and need: "need_bytes h \<le> length input"
      and p: "packet_from_bytes rd (input, 0) = Inr ((rest, 0), p)"
      and hp: "header_of p = h" and tx1: "chan_send p tx = Some tx1"
      by blast
    from p have wf: "wf_packet p" and input: "input = wire p @ rest"
      by (auto simp: packet_from_bytes_iff)
    then have len: "length input = total_bytes p + length rest" by (simp add: length_wire)
    then have "parse_loop rd rest 0 (length rest) (c + total_bytes p) tx1 = (r, tx')"
      using "1.prems" h p need hp tx1
      by (simp add: parse_loop.simps[of rd input] not_less need_bytes_header_of[symmetric]
          del: need_bytes_header_of)
    moreover have "length rest < length input" using len total_bytes_pos[of p] by simp
    ultimately obtain k where r: "r \<noteq> Inl Panic" and k: "k \<le> length rest"
      and rest: "faithful (ch_sent tx1) rest tx' (drop k rest)"
      and d: "\<forall>d n. r = Inr (d, n) \<longrightarrow> d = c + total_bytes p + k"
      using "1.IH" by blast
    have "faithful (ch_sent tx) input tx1 rest"
      using wf chan_send_Some[OF tx1] by (auto simp: faithful_def input intro!: exI[of _ "[p]"])
    from faithful_trans[OF this rest] have "faithful (ch_sent tx) input tx' (drop (total_bytes p + k) input)"
      by (simp add: input length_wire[OF wf, symmetric])
    with r k d len show ?thesis by (auto intro!: exI[of _ "total_bytes p + k"])
  next
    case False
    have stop: "tx' = tx \<and> r \<noteq> Inl Panic \<and> (\<forall>d n. r = Inr (d, n) \<longrightarrow> d = c)"
    proof (cases "header_from_bytes rd (input, 0)")
      case (Inl e)
      then show ?thesis using "1.prems" by (cases e) (auto simp: parse_loop.simps[of rd input])
    next
      case (Inr ph)
      obtain pos h where ph: "ph = (pos, h)" by (cases ph)
      show ?thesis
      proof (cases "need_bytes h \<le> length input")
        case True
        obtain p rest where p: "packet_from_bytes rd (input, 0) = Inr ((rest, 0), p)"
          and hp: "header_of p = h"
          using header_then_packet[of input pos h] Inr ph True by blast
        then have "chan_send p tx = None" using False Inr ph True by (cases "chan_send p tx") auto
        moreover have "total_bytes p \<le> length input" using True hp need_bytes_header_of[of p] by simp
        ultimately show ?thesis
          using "1.prems" Inr ph True p by (auto simp: parse_loop.simps[of rd input])
      next
        case False
        then show ?thesis using "1.prems" Inr ph by (auto simp: parse_loop.simps[of rd input])
      qed
    qed
    then show ?thesis using faithful_refl by (auto intro!: exI[of _ 0])
  qed
qed

lemma link_read_parse_any:
  assumes inv: "sb_inv (packet_buffer s)"
    and res: "link_read_parse rd s = Continue s' \<or> link_read_parse rd s = Break e s'"
  shows "\<exists>rest. faithful (ch_sent (response_tx s)) (sb_bytes (packet_buffer s)) (response_tx s') rest
    \<and> (link_read_parse rd s = Continue s' \<longrightarrow>
         sb_inv (packet_buffer s') \<and> rest = sb_bytes (packet_buffer s'))
    \<and> (link_read_parse rd s = Break e s' \<longrightarrow> e \<noteq> Panic)"
proof -
  let ?in = "sb_bytes (packet_buffer s)"
  obtain r tx where pr: "parse_loop rd ?in 0 (length ?in) 0 (response_tx s) = (r, tx)"
    by (cases "parse_loop rd ?in 0 (length ?in) 0 (response_tx s)")
  from parse_loop_any[OF pr] obtain k where r: "r \<noteq> Inl Panic" and k: "k \<le> length ?in"
    and f: "faithful (ch_sent (response_tx s)) ?in tx (drop k ?in)"
    and d: "\<forall>d n. r = Inr (d, n) \<longrightarrow> d = k" by auto
  show ?thesis
  proof (cases r)
    case (Inl e')
    then show ?thesis
      using res pr r f by (auto simp: link_read_parse_def sb_specs inv parse_packet_buf_def)
  next
    case (Inr dn)
    then obtain n where rn: "r = Inr (k, n)" using d by (cases dn) auto
    obtain buf where "sb_free (packet_buffer s) k = Inr buf" "sb_inv buf"
      "sb_bytes buf = drop k ?in"
      using sb_free_spec[OF inv k] by metis
    then show ?thesis
      using res pr rn f by (auto simp: link_read_parse_def sb_specs inv parse_packet_buf_def)
  qed
qed

lemma link_read_step_any:
  assumes inv: "sb_inv (packet_buffer s)"
    and res: "link_read_step rd b s = Continue s' \<or> link_read_step rd b s = Break e s'"
  shows "\<exists>rest. faithful (ch_sent (response_tx s)) (sb_bytes (packet_buffer s) @ b)
      (response_tx s') rest
    \<and> (link_read_step rd b s = Continue s' \<longrightarrow>
         sb_inv (packet_buffer s') \<and> rest = sb_bytes (packet_buffer s'))
    \<and> (link_read_step rd b s = Break e s' \<longrightarrow> e \<noteq> Panic)"
proof (cases "push_fits s (length b)")
  case False
  then obtain e1 s1 where "link_read_step rd b s = Break (Err e1) s1"
    and "response_tx s1 = response_tx s"
    using link_read_step_overflow[OF inv False] by metis
  then show ?thesis using res faithful_refl by (auto simp: faithful_def)
next
  case True
  obtain buf1 where room: "sb_make_room (packet_buffer s) (length b) = Inr (Inr buf1)"
    and buf1: "sb_inv buf1" "sb_bytes buf1 = sb_bytes (packet_buffer s)"
    and room1: "sb_room buf1 = room_after_make_room (packet_buffer s) (length b)"
    by (rule sb_make_room_fits[OF inv, of "length b"])
      (use True in \<open>auto simp: push_fits_def room_after_make_room_def\<close>)
  have "length b \<le> sb_room buf1" using True room1 by (simp add: push_fits_def)
  then obtain buf2 where push: "sb_push_slice buf1 b = Inr buf2" and inv2: "sb_inv buf2"
    and bytes2: "sb_bytes buf2 = sb_bytes (packet_buffer s) @ b"
    using sb_push_slice_spec[OF buf1(1)] buf1(2) by metis
  let ?s = "s\<lparr>packet_buffer := buf2\<rparr>"
  let ?body = "if need_size s \<le> length (sb_bytes buf2) then link_read_parse rd ?s else Continue ?s"
  have step: "link_read_step rd b s = ctl_then ?body
      (\<lambda>t. case sb_reuse_if (packet_buffer t) of
             Inl e \<Rightarrow> Break (buf_fault e) t
           | Inr (_, buf'') \<Rightarrow> Continue (t\<lparr>packet_buffer := buf''\<rparr>))"
    by (simp add: link_read_step_def room push sb_specs inv2 Let_def)
  have inv2': "sb_inv (packet_buffer ?s)" using inv2 by simp
  show ?thesis
  proof (cases ?body)
    case (Break e1 t)
    then have "link_read_parse rd ?s = Break e1 t" by (auto split: if_splits)
    then show ?thesis
      using link_read_parse_any[OF inv2', of t e1] res Break by (auto simp: step bytes2)
  next
    case (Continue t)
    have t: "sb_inv (packet_buffer t) \<and> faithful (ch_sent (response_tx s))
        (sb_bytes (packet_buffer s) @ b) (response_tx t) (sb_bytes (packet_buffer t))"
    proof (cases "need_size s \<le> length (sb_bytes buf2)")
      case True
      with Continue have "link_read_parse rd ?s = Continue t" by simp
      then show ?thesis using link_read_parse_any[OF inv2', of t] by (auto simp: bytes2)
    next
      case False
      with Continue inv2 bytes2 faithful_refl[of "response_tx s" "sb_bytes buf2"]
      show ?thesis by auto
    qed
    then obtain q buf3 where "sb_reuse_if (packet_buffer t) = Inr (q, buf3)" "sb_inv buf3"
      "sb_bytes buf3 = sb_bytes (packet_buffer t)"
      using sb_reuse_if_spec by metis
    then show ?thesis using res t Continue by (auto simp: step)
  qed
qed

lemma read_loop_faithful:
  assumes "sb_inv (packet_buffer s)"
    and "link_read_loop rd (map Some bs) s = Continue s'
       \<or> link_read_loop rd (map Some bs) s = Break e s'"
  shows "\<exists>rest. faithful (ch_sent (response_tx s)) (sb_bytes (packet_buffer s) @ concat bs)
      (response_tx s') rest
    \<and> (link_read_loop rd (map Some bs) s = Continue s' \<longrightarrow> rest = sb_bytes (packet_buffer s'))
    \<and> (link_read_loop rd (map Some bs) s = Break e s' \<longrightarrow> e \<noteq> Panic)"
  using assms
proof (induction bs arbitrary: s)
  case Nil
  then show ?case using faithful_refl by (auto simp: link_read_loop_def)
next
  case (Cons b bs)
  show ?case
  proof (cases "link_read_step rd b s")
    case (Break e1 s1)
    then have "s1 = s'" "e1 = e" using Cons.prems(2) by (auto simp: link_read_loop_Cons)
    moreover obtain rest where "e1 \<noteq> Panic" and f: "faithful (ch_sent (response_tx s))
        (sb_bytes (packet_buffer s) @ b) (response_tx s1) rest"
      using link_read_step_any[OF Cons.prems(1), of b s1 e1] Break by auto
    moreover from f have "faithful (ch_sent (response_tx s))
        (sb_bytes (packet_buffer s) @ concat (b # bs)) (response_tx s1) (rest @ concat bs)"
      using faithful_append by fastforce
    ultimately show ?thesis by (auto simp: link_read_loop_Cons Break)
  next
    case (Continue s1)
    then obtain mid where "sb_inv (packet_buffer s1)" and mid: "mid = sb_bytes (packet_buffer s1)"
      and f: "faithful (ch_sent (response_tx s)) (sb_bytes (packet_buffer s) @ b) (response_tx s1) mid"
      using link_read_step_any[OF Cons.prems(1), of b s1] by auto
    moreover have "link_read_loop rd (map Some bs) s1 = Continue s'
       \<or> link_read_loop rd (map Some bs) s1 = Break e s'"
      using Cons.prems(2) by (simp only: list.map link_read_loop_Cons Continue ctl_then.simps)
    ultimately obtain rest where r: "faithful (ch_sent (response_tx s1))
          (sb_bytes (packet_buffer s1) @ concat bs) (response_tx s') rest"
      and more: "link_read_loop rd (map Some bs) s1 = Continue s' \<longrightarrow>
          rest = sb_bytes (packet_buffer s')"
        "link_read_loop rd (map Some bs) s1 = Break e s' \<longrightarrow> e \<noteq> Panic"
      using Cons.IH by blast
    have "faithful (ch_sent (response_tx s)) (sb_bytes (packet_buffer s) @ concat (b # bs))
        (response_tx s') rest"
      using faithful_trans[OF faithful_append[OF f, of "concat bs"]] r mid by simp
    with more show ?thesis
      unfolding list.map link_read_loop_Cons Continue by auto
  qed
qed

text \<open>The buffer's capacity never changes, and bounds what can be delivered.\<close>

lemma link_read_step_capacity:
  "link_read_step rd b s = Continue s' \<Longrightarrow> capacity (packet_buffer s') = capacity (packet_buffer s)"
  by (auto simp: link_read_step_def link_read_parse_def sb_make_room_def sb_push_slice_def
      sb_free_def sb_reuse_def sb_reuse_if_def and_then_Inr_iff Let_def
      split: sum.splits if_splits prod.splits ctl.splits elim!: ctl_then.elims)

lemma faithful_bound:
  assumes "faithful old got tx rest" and "length got \<le> n"
  shows "\<exists>qs. ch_sent tx = old @ qs \<and> (\<forall>q \<in> set qs. total_bytes q \<le> n)"
proof -
  obtain qs where qs: "ch_sent tx = old @ qs" "\<forall>q \<in> set qs. wf_packet q" "got = wires qs @ rest"
    using assms(1) by (auto simp: faithful_def)
  have "total_bytes q \<le> n" if q: "q \<in> set qs" for q
  proof -
    obtain as bs where "qs = as @ q # bs" using q by (meson split_list)
    then have "stream_size qs = stream_size as + (total_bytes q + stream_size bs)" by simp
    then show ?thesis using assms(2) length_wires[OF qs(2)] qs(3) by simp
  qed
  with qs(1) show ?thesis by blast
qed

lemma push_fits_bound:
  assumes "sb_inv (packet_buffer s)" and "push_fits s n"
  shows "length (sb_bytes (packet_buffer s)) + n \<le> capacity (packet_buffer s)"
  using assms sb_invD[OF assms(1)] length_sb_bytes[OF assms(1)]
  by (auto simp: push_fits_def room_after_make_room_def sb_room_def split: if_splits)

lemma link_read_step_bound:
  assumes inv: "sb_inv (packet_buffer s)"
    and res: "link_read_step rd b s = Continue s' \<or> link_read_step rd b s = Break e s'"
  shows "\<exists>qs. ch_sent (response_tx s') = ch_sent (response_tx s) @ qs
    \<and> (\<forall>q \<in> set qs. total_bytes q \<le> capacity (packet_buffer s))"
proof (cases "push_fits s (length b)")
  case False
  then obtain e1 s1 where "link_read_step rd b s = Break (Err e1) s1"
    and "response_tx s1 = response_tx s"
    using link_read_step_overflow[OF inv False] by metis
  then show ?thesis using res by auto
next
  case True
  obtain rest where "faithful (ch_sent (response_tx s)) (sb_bytes (packet_buffer s) @ b)
      (response_tx s') rest"
    using link_read_step_any[OF inv res] by blast
  then show ?thesis using faithful_bound push_fits_bound[OF inv True] by simp
qed

lemma read_loop_bound:
  assumes "sb_inv (packet_buffer s)"
  shows "\<exists>qs. ch_sent (response_tx (ctl_state (link_read_loop rd (map Some bs) s)))
      = ch_sent (response_tx s) @ qs \<and> (\<forall>q \<in> set qs. total_bytes q \<le> capacity (packet_buffer s))"
  using assms
proof (induction bs arbitrary: s)
  case Nil
  then show ?case by (simp add: link_read_loop_def)
next
  case (Cons b bs)
  show ?case
  proof (cases "link_read_step rd b s")
    case (Break e s1)
    then show ?thesis using link_read_step_bound[OF Cons.prems, of b s1 e] by (simp add: link_read_loop_Cons)
  next
    case (Continue s1)
    have inv1: "sb_inv (packet_buffer s1)"
      using link_read_step_any[OF Cons.prems, of b s1] Continue by auto
    have "capacity (packet_buffer s1) = capacity (packet_buffer s)"
      using link_read_step_capacity[OF Continue] .
    then obtain q2 where "ch_sent (response_tx (ctl_state (link_read_loop rd (map Some bs) s1)))
        = ch_sent (response_tx s1) @ q2" "\<forall>q \<in> set q2. total_bytes q \<le> capacity (packet_buffer s)"
      using Cons.IH[OF inv1] by auto
    moreover obtain q1 where "ch_sent (response_tx s1) = ch_sent (response_tx s) @ q1"
      "\<forall>q \<in> set q1. total_bytes q \<le> capacity (packet_buffer s)"
      using link_read_step_bound[OF Cons.prems, of b s1] Continue by auto
    ultimately show ?thesis
      by (intro exI[of _ "q1 @ q2"]) (auto simp: link_read_loop_Cons Continue)
  qed
qed

end

section \<open>The write loop\<close>

lemma link_write_loop_live:
  assumes "deku_io rd wr" and "chan_live tx" and "\<forall>p \<in> set ps. wf_packet p"
  shows "link_write_loop wr (map Some ps) tx =
     Continue (tx\<lparr>ch_sent := ch_sent tx @ map (deku_io.wire wr) ps\<rparr>)"
  using assms(2,3)
proof (induction ps arbitrary: tx)
  case (Cons p ps)
  then show ?case
    using deku_io.packet_to_bytes_wire[OF assms(1), of p]
    by (simp add: link_write_loop_def flow_simps)
qed (simp add: link_write_loop_def)

end
