(* ===== verification/Link_Theorems.thy ===== *)
theory Link_Theorems
  imports Link_Laws
begin

text \<open>
  The properties of the link loops of \<open>link/src/transport/link.rs\<close>, each with a concrete
  instance.  The proofs are applications of the framing lemmas of \<open>Link_Laws\<close>.
\<close>

section \<open>Concrete instances\<close>

definition test_chunks :: "bytes list" where
  "test_chunks = [take 4 test_bytes, take 7 (drop 4 test_bytes)]"

lemma test_chunks_stream: "packets_to_bytes wr_msb [test_packet] = Inr (concat test_chunks @ [])"
  by code_simp

definition small_push :: "byte \<Rightarrow> bytes \<Rightarrow> packet" where
  "small_push r body = Push \<lparr>ps_reserved = r, ps_command = CmdSubTrades, ps_msg_type = Msg_Trade,
     ps_body_len = len_u32 body, ps_body = body\<rparr>"

definition overflow_bytes :: bytes where
  "overflow_bytes = [0x88, 0x02, 0, 0, 0, 0x88, 0x02, 0, 0, 2, 7, 7]"

lemma overflow_headers:
  "header_from_bytes rd_msb ([0x88, 0x02, 0, 0, 0, 0x88, 0x02, 0, 0], 0)
     = Inr (([0x88, 0x02, 0, 0], 0), header_of (small_push 0 []))"
  "packet_from_bytes rd_msb ([0x88, 0x02, 0, 0, 0, 0x88, 0x02, 0, 0], 0)
     = Inr (([0x88, 0x02, 0, 0], 0), small_push 0 [])"
  "header_from_bytes rd_msb ([0x88, 0x02, 0, 0], 0) = Inl DekuIncomplete"
  by code_simp+

lemma overflow_first_chunk:
  assumes "chan_live tx"
  shows "link_read_step rd_msb (take 9 overflow_bytes) (link_read_init 10 tx) =
  Continue \<lparr>packet_buffer = \<lparr>data_vec = take 9 overflow_bytes @ [0], capacity = 10, vacant_idx = 9, occupied_idx = 5\<rparr>,
    need_size = 5, response_tx = tx\<lparr>ch_sent := ch_sent tx @ [small_push 0 []]\<rparr>\<rparr>"
proof -
  have new: "sb_new 10 = \<lparr>data_vec = [0,0,0,0,0,0,0,0,0,0], capacity = 10, vacant_idx = 0, occupied_idx = 0\<rparr>"
    by (simp add: sb_new_def eval_nat_numeral)
  have size: "need_bytes (header_of (small_push 0 [])) = 5" "total_bytes (small_push 0 []) = 5"
    by (simp_all add: small_push_def header_sizes len_u32_def)
  have parse: "parse_packet_buf rd_msb tx [0x88, 0x02, 0, 0, 0, 0x88, 0x02, 0, 0]
      = (Inr (5, 5), tx\<lparr>ch_sent := ch_sent tx @ [small_push 0 []]\<rparr>)"
    using assms
    by (simp add: parse_packet_buf_def parse_loop.simps overflow_headers size flow_simps header_sizes)
  show ?thesis
    by (simp add: link_read_step_def link_read_parse_def link_read_init_def sb_make_room_def new sb_method_defs
        overflow_bytes_def parse header_sizes del: need_bytes_header_of)
qed

section \<open>Properties\<close>



text \<open>For chunks of any size the reader either goes on, having delivered exactly the
  packets that have completely arrived, or stops with an overflow of its buffer, having
  delivered exactly the packets of the chunks before; no other error is possible on a
  well-formed stream with a live consumer.\<close>

lemma link_read_loop_exact:
  assumes "deku_io rd wr" and "cap < usize_bound" and "\<forall>p \<in> set ps. wf_packet p"
    and "chan_live tx" and "packets_to_bytes wr ps = Inr (concat bs @ ext)"
  shows "\<exists>k \<le> length bs. \<exists>s.
      ch_sent (response_tx s) = ch_sent tx @ received (length (concat (take k bs))) ps
    \<and> (k = length bs \<and> link_read_loop rd (map Some bs) (link_read_init cap tx) = Continue s
       \<or> k < length bs \<and> (\<exists>e. buffer_overflow e
            \<and> link_read_loop rd (map Some bs) (link_read_init cap tx) = Break (Err e) s))"
proof -
  have "deku_io.wires wr ps = concat bs @ ext"
    using deku_io.packets_to_bytes_wires[OF assms(1,3)] assms(5) by simp
  then have "deku_io.framed wr ps (concat bs @ ext) (link_read_init cap tx)"
    using deku_io.framed_init[OF assms(1-4)] by simp
  from deku_io.link_read_loop_any[OF assms(1) this] show ?thesis
    by (simp add: link_read_init_def)
qed

lemma link_read_loop_exact_witness:
  "\<exists>k \<le> length test_chunks. \<exists>s.
      ch_sent (response_tx s) = received (length (concat (take k test_chunks))) [test_packet]
    \<and> (k = length test_chunks
         \<and> link_read_loop rd_msb (map Some test_chunks) (link_read_init 8 live_chan) = Continue s
       \<or> k < length test_chunks \<and> (\<exists>e. buffer_overflow e
         \<and> link_read_loop rd_msb (map Some test_chunks) (link_read_init 8 live_chan)
             = Break (Err e) s))"
  using link_read_loop_exact[OF msb.deku_io_axioms _ _ _ test_chunks_stream, of 8 live_chan]
    test_packet_wf
  by simp

text \<open>C12: On arbitrary input, hostile or cut off, and with a consumer that may go away at any
  time, the read loop never panics; the packets it delivers are well formed, and their
  encodings are, in order, the beginning of the bytes it was given.  If it goes on, the rest
  of those bytes is what its buffer holds.\<close>

theorem link_read_loop_faithful:
  assumes "deku_io rd wr" and "cap < usize_bound"
  shows "\<exists>qs rest stream.
      ch_sent (response_tx (ctl_state (link_read_loop rd (map Some bs) (link_read_init cap tx))))
        = ch_sent tx @ qs
    \<and> (\<forall>q \<in> set qs. wf_packet q) \<and> packets_to_bytes wr qs = Inr stream
    \<and> concat bs = stream @ rest
    \<and> (case link_read_loop rd (map Some bs) (link_read_init cap tx) of
         Continue s \<Rightarrow> rest = sb_bytes (packet_buffer s)
       | Break e s \<Rightarrow> e \<noteq> Panic)"
proof -
  let ?s = "link_read_init cap tx"
  let ?r = "link_read_loop rd (map Some bs) ?s"
  have inv: "sb_inv (packet_buffer ?s)" and empty: "sb_bytes (packet_buffer ?s) = []"
    using assms(2) by (simp_all add: link_read_init_def sb_new_inv)
  have tx: "ch_sent (response_tx ?s) = ch_sent tx" by (simp add: link_read_init_def)
  obtain rest where "deku_io.faithful wr (ch_sent tx) (concat bs) (response_tx (ctl_state ?r)) rest"
    and "case ?r of Continue s \<Rightarrow> rest = sb_bytes (packet_buffer s) | Break e s \<Rightarrow> e \<noteq> Panic"
    using deku_io.read_loop_faithful[OF assms(1) inv, of bs] empty tx
    by (cases ?r) fastforce+
  then show ?thesis
    using deku_io.packets_to_bytes_wires[OF assms(1)]
    by (fastforce simp: deku_io.faithful_def[OF assms(1)])
qed

theorem link_read_loop_faithful_witness:
  "\<exists>qs rest stream.
      ch_sent (response_tx (ctl_state (link_read_loop rd_msb (map Some [[0xff]])
          (link_read_init 8 live_chan)))) = qs
    \<and> packets_to_bytes wr_msb qs = Inr stream \<and> [0xff] = stream @ rest"
  using link_read_loop_faithful[OF msb.deku_io_axioms, of 8 "[[0xff]]" live_chan] by auto

text \<open>C37: The room check compares a chunk with the bytes the buffer holds, not with the room
  behind them.  A chunk that is no longer than those bytes but longer than that room ends the
  reader with a push error, however much capacity compaction would have gained.\<close>

theorem link_read_room_guard:
  assumes "sb_inv (packet_buffer s)" and "length b \<le> length (sb_bytes (packet_buffer s))"
    and "sb_room (packet_buffer s) < length b"
  shows "link_read_step rd b s =
     Break (Err (PacketBufferError (VacantShort (sb_room (packet_buffer s)) (length b)))) s"
  using assms by (simp add: link_read_step_def sb_make_room_def sb_specs)

theorem link_read_room_guard_witness:
  "(\<exists>s. link_read_loop rd_msb [Some (take 9 overflow_bytes), Some (drop 9 overflow_bytes)]
        (link_read_init 10 live_chan)
      = Break (Err (PacketBufferError (VacantShort 1 3))) s
     \<and> capacity (packet_buffer s) - length (sb_bytes (packet_buffer s)) = 6)
   \<and> packets_to_bytes wr_msb [small_push 0 [], small_push 0 [7, 7]] = Inr overflow_bytes"
proof
  let ?s = "\<lparr>packet_buffer = \<lparr>data_vec = take 9 overflow_bytes @ [0], capacity = 10,
       vacant_idx = 9, occupied_idx = 5\<rparr>, need_size = 5,
     response_tx = live_chan\<lparr>ch_sent := ch_sent live_chan @ [small_push 0 []]\<rparr>\<rparr>"
  have first: "link_read_step rd_msb (take 9 overflow_bytes) (link_read_init 10 live_chan) = Continue ?s"
    by (rule overflow_first_chunk) simp
  have len: "length overflow_bytes = 12" by (simp add: overflow_bytes_def)
  have buf: "sb_inv (packet_buffer ?s)" "length (sb_bytes (packet_buffer ?s)) = 4"
    "sb_room (packet_buffer ?s) = 1"
    by (simp_all add: sb_inv_def sb_bytes_def sb_room_def len)
  then have "link_read_step rd_msb (drop 9 overflow_bytes) ?s =
     Break (Err (PacketBufferError (VacantShort 1 3))) ?s"
    using link_read_room_guard[OF buf(1), of "drop 9 overflow_bytes"] len by simp
  with first buf show "\<exists>s. link_read_loop rd_msb
      [Some (take 9 overflow_bytes), Some (drop 9 overflow_bytes)] (link_read_init 10 live_chan)
      = Break (Err (PacketBufferError (VacantShort 1 3))) s
     \<and> capacity (packet_buffer s) - length (sb_bytes (packet_buffer s)) = 6"
    by (intro exI[of _ ?s]) (simp add: link_read_loop_def)
  show "packets_to_bytes wr_msb [small_push 0 [], small_push 0 [7, 7]] = Inr overflow_bytes"
    by code_simp
qed

text \<open>The write loop turns a list of well-formed packets into their encodings, one message
  per packet and in order, and goes on; on a closed request channel it stops, having sent
  everything before.\<close>

lemma link_write_loop_sends:
  assumes "deku_io rd wr" and "chan_live tx" and "\<forall>p \<in> set ps. wf_packet p"
  shows "\<exists>bss tx'. list_all2 (\<lambda>p b. packet_to_bytes wr p = Inr b \<and> length b = total_bytes p) ps bss
    \<and> packets_to_bytes wr ps = Inr (concat bss)
    \<and> tx' = tx\<lparr>ch_sent := ch_sent tx @ bss\<rparr>
    \<and> link_write_loop wr (map Some ps) tx = Continue tx'
    \<and> link_write_loop wr (map Some ps @ [None]) tx = Break (Err RequestRxClosed) tx'"
proof (intro exI conjI)
  let ?bss = "map (deku_io.wire wr) ps"
  show loop: "link_write_loop wr (map Some ps) tx = Continue (tx\<lparr>ch_sent := ch_sent tx @ ?bss\<rparr>)"
    by (rule link_write_loop_live[OF assms])
  show "link_write_loop wr (map Some ps @ [None]) tx =
      Break (Err RequestRxClosed) (tx\<lparr>ch_sent := ch_sent tx @ ?bss\<rparr>)"
    using loop by (simp add: link_write_loop_def run_loop_append)
  show "packets_to_bytes wr ps = Inr (concat ?bss)"
    using deku_io.packets_to_bytes_wires[OF assms(1,3)] by (simp add: deku_io.wires_def[OF assms(1)])
  show "list_all2 (\<lambda>p b. packet_to_bytes wr p = Inr b \<and> length b = total_bytes p) ps ?bss"
    using assms(3) deku_io.packet_to_bytes_wire[OF assms(1)] deku_io.length_wire[OF assms(1)]
    by (auto simp: list_all2_conv_all_nth)
qed simp

lemma link_write_loop_sends_witness:
  "\<exists>b tx'. packet_to_bytes wr_msb test_packet = Inr b
     \<and> link_write_loop wr_msb [Some test_packet] live_chan = Continue tx' \<and> ch_sent tx' = [b]"
  using link_write_loop_sends[OF msb.deku_io_axioms, of live_chan "[test_packet]"] test_packet_wf
  by (auto simp: list_all2_Cons1)

end
