(* ===== verification/Quic_Theorems.thy ===== *)
theory Quic_Theorems
  imports Quic_Laws Wire_Laws Link_Theorems
begin

text \<open>
  The properties of \<open>quic_process_loop\<close>, and a connection that keeps the contract
  \<open>quic_conn\<close>: a stream with a bounded send window that receiving opens again.
\<close>

section \<open>A flow-controlled connection\<close>

record window_conn =
  wc_accepted :: bytes
  wc_emitted :: "bytes list"
  wc_taken :: "bytes list"
  wc_outbox :: bytes
  wc_inbox :: bytes
  wc_window :: nat

definition window_size :: nat where "window_size = 4"

definition wc_new :: window_conn where
  "wc_new = \<lparr>wc_accepted = [], wc_emitted = [], wc_taken = [], wc_outbox = [], wc_inbox = [],
     wc_window = window_size\<rparr>"

definition wc_send :: "usize \<Rightarrow> window_conn \<Rightarrow> (quic_error + bytes) \<times> window_conn" where
  "wc_send n c =
     (if wc_outbox c = [] \<or> n = 0 then (Inl Q_Done, c)
      else (Inr (take n (wc_outbox c)),
            c\<lparr>wc_outbox := drop n (wc_outbox c),
              wc_emitted := wc_emitted c @ [take n (wc_outbox c)]\<rparr>))"

definition wc_recv :: "bytes \<Rightarrow> window_conn \<Rightarrow> (quic_error + usize) \<times> window_conn" where
  "wc_recv b c = (Inr (length b), c\<lparr>wc_inbox := wc_inbox c @ b, wc_window := window_size\<rparr>)"

definition wc_stream_recv ::
    "stream_id \<Rightarrow> usize \<Rightarrow> window_conn \<Rightarrow> (quic_error + bytes \<times> bool) \<times> window_conn" where
  "wc_stream_recv sid n c =
     (if wc_inbox c = [] \<or> n = 0 then (Inl Q_Done, c)
      else (Inr (take n (wc_inbox c), False),
            c\<lparr>wc_inbox := drop n (wc_inbox c), wc_taken := wc_taken c @ [take n (wc_inbox c)]\<rparr>))"

definition wc_stream_send ::
    "stream_id \<Rightarrow> bytes \<Rightarrow> bool \<Rightarrow> window_conn \<Rightarrow> (quic_error + usize) \<times> window_conn" where
  "wc_stream_send sid b fin c =
     (let n = min (wc_window c) (length b) in
      if wc_window c = 0 then (Inl Q_Done, c)
      else (Inr n, c\<lparr>wc_accepted := wc_accepted c @ take n b, wc_outbox := wc_outbox c @ take n b,
                    wc_window := wc_window c - n\<rparr>))"

definition window_quiche :: "window_conn quiche" where
  "window_quiche =
     \<lparr>qc_send = wc_send, qc_recv = wc_recv,
      qc_readable = (\<lambda>c. if wc_inbox c = [] then [] else [DEFAULT_CLIENT_BI_STREAM_ID]),
      qc_stream_recv = wc_stream_recv, qc_stream_send = wc_stream_send,
      qc_timeout = (\<lambda>c. None), qc_on_timeout = (\<lambda>c. c), qc_is_timed_out = (\<lambda>c. False),
      qc_is_closed = (\<lambda>c. False), qc_is_established = (\<lambda>c. True)\<rparr>"

lemma window_quiche_simps [simp]:
  "qc_send window_quiche = wc_send" "qc_recv window_quiche = wc_recv"
  "qc_stream_recv window_quiche = wc_stream_recv" "qc_stream_send window_quiche = wc_stream_send"
  "qc_timeout window_quiche = (\<lambda>c. None)" "qc_on_timeout window_quiche = (\<lambda>c. c)"
  by (simp_all add: window_quiche_def)

interpretation window: quic_conn window_quiche wc_accepted wc_emitted wc_taken
  "\<lambda>c. length (wc_outbox c)" "\<lambda>c. length (wc_inbox c)"
  by unfold_locales
    (auto simp: wc_send_def wc_recv_def wc_stream_recv_def wc_stream_send_def Let_def
      split: if_splits)

section \<open>Properties\<close>

text \<open>C3: The process loop always comes back, and is first in first out.  From its start, on any
  list of events, over any connection that keeps the contract, it does not hang and does not
  panic.  If it goes on, then the bytes the stream has accepted followed by the bytes still
  buffered are, in order and each one whole, a subsequence of the messages it was given to
  send; every datagram the connection emitted went to the UDP channel and every piece of
  stream data to the read loop, in order.  It never ends because of a refused \<open>free\<close> or of
  the second capacity check.\<close>

theorem quic_process_loop_fifo:
  assumes "quic_conn q accepted emitted taken backlog unread" and "send_size < usize_bound"
  shows "\<exists>r. quic_process_loop q evs (quic_init c rtx stx udp_size read_size send_size) = Some r
    \<and> (case r of
         Break e s \<Rightarrow> expected e
       | Continue s \<Rightarrow> \<exists>kept ds xs. subseq kept (sent_data evs)
           \<and> accepted (conn s) @ sb_bytes (stream_send_buffer s) = accepted c @ concat kept
           \<and> emitted (conn s) = emitted c @ ds \<and> ch_sent (udp_data_send_tx s) = ch_sent stx @ ds
           \<and> taken (conn s) = taken c @ xs \<and> ch_sent (quic_data_recv_tx s) = ch_sent rtx @ xs)"
proof -
  let ?s = "quic_init c rtx stx udp_size read_size send_size"
  have "sb_inv (stream_send_buffer ?s)" using sb_new_inv[OF assms(2)] by (simp add: quic_init_def)
  from quic_conn.quic_process_loop_runs[OF assms(1) this, of evs] show ?thesis
  proof (cases rule: runsE)
    case (1 s)
    then show ?thesis
      by (fastforce simp: quic_conn.extended_def[OF assms(1)] quic_conn.moved_def[OF assms(1)]
          quic_conn.outgoing_def[OF assms(1)] quic_init_def)
  qed auto
qed

theorem quic_process_loop_fifo_witness:
  "\<exists>r. quic_process_loop window_quiche [Send_Data [1, 2, 3, 4, 5], Udp_Data [7], Tick]
       (quic_init wc_new live_chan live_chan 3 3 8) = Some r
    \<and> (case r of
         Break e s \<Rightarrow> expected e
       | Continue s \<Rightarrow> \<exists>kept ds xs.
           subseq kept (sent_data [Send_Data [1, 2, 3, 4, 5], Udp_Data [7], Tick])
           \<and> wc_accepted (conn s) @ sb_bytes (stream_send_buffer s)
               = wc_accepted wc_new @ concat kept
           \<and> wc_emitted (conn s) = wc_emitted wc_new @ ds
           \<and> ch_sent (udp_data_send_tx s) = ch_sent live_chan @ ds
           \<and> wc_taken (conn s) = wc_taken wc_new @ xs
           \<and> ch_sent (quic_data_recv_tx s) = ch_sent live_chan @ xs)"
  by (rule quic_process_loop_fifo[OF window.quic_conn_axioms]) simp


definition window_start :: "window_conn quic_state" where
  "window_start = quic_init wc_new live_chan live_chan 9 9 7"

lemma window_start_inv: "sb_inv (stream_send_buffer window_start)"
  by (simp add: window_start_def quic_init_def sb_new_inv)


lemmas quic_eval = quic_init_def on_send_data_def flush_loop.simps stream_send_loop.simps
   conn_send_loop.simps conn_recv_loop.simps stream_read_loop.simps on_udp_data_def send_fresh_def
   sb_make_room_def sb_method_defs Let_def spawn_timer_def wc_send_def wc_recv_def
   wc_stream_recv_def wc_stream_send_def window_size_def keep_unsent_def chan_send_def live_chan_def

lemma window_start_eq:
  "window_start = \<lparr>conn = \<lparr>wc_accepted = [], wc_emitted = [], wc_taken = [], wc_outbox = [],
       wc_inbox = [], wc_window = 4\<rparr>,
     stream_send_buffer = \<lparr>data_vec = [0, 0, 0, 0, 0, 0, 0], capacity = 7, vacant_idx = 0,
       occupied_idx = 0\<rparr>,
     quic_data_recv_tx = live_chan, udp_data_send_tx = live_chan, udp_data_buffer_size = 9,
     stream_recv_buffer_size = 9, sleeping_timers = []\<rparr>"
  by (simp add: window_start_def quic_init_def wc_new_def window_size_def sb_new_def
      replicate_eq_replicate eval_nat_numeral)

definition window_stuck :: "window_conn quic_state" where
  "window_stuck = \<lparr>conn = \<lparr>wc_accepted = [1, 2, 3, 4, 5, 6, 7, 8],
       wc_emitted = [[1, 2, 3, 4], [5, 6, 7, 8]], wc_taken = [[0]], wc_outbox = [],
       wc_inbox = [], wc_window = 0\<rparr>,
     stream_send_buffer = \<lparr>data_vec = [5, 6, 7, 8, 9, 10, 0], capacity = 7, vacant_idx = 6,
       occupied_idx = 4\<rparr>,
     quic_data_recv_tx = \<lparr>ch_sent = [[0]], ch_open = \<lambda>_. True\<rparr>,
     udp_data_send_tx = \<lparr>ch_sent = [[1, 2, 3, 4], [5, 6, 7, 8]], ch_open = \<lambda>_. True\<rparr>,
     udp_data_buffer_size = 9, stream_recv_buffer_size = 9, sleeping_timers = []\<rparr>"

lemma window_stuck_run:
  "quic_process_loop window_quiche
     [Send_Data [1, 2, 3, 4], Send_Data [5, 6, 7, 8, 9, 10], Udp_Data [0], Send_Data [11, 12]]
     window_start
   = Some (Break (Err (SendBufferPushFailed (VacantShort 1 2))) window_stuck)"
  by (simp add: window_start_eq window_stuck_def quic_eval window_quiche_def)

text \<open>The room check of the sender has the fault of the reader's: it compares the message
  with the bytes the buffer holds.  With no fewer bytes held than the message has, but less
  room behind them than its unsent rest, the connection's task ends with a push error, however
  much capacity compaction would have gained.\<close>

lemma keep_unsent_room_guard:
  assumes "sb_inv (stream_send_buffer s)" and "n < length b"
    and "length b \<le> length (sb_bytes (stream_send_buffer s))"
    and "sb_room (stream_send_buffer s) < length b - n"
  shows "keep_unsent b n s = Some (Break (Err (SendBufferPushFailed
     (VacantShort (sb_room (stream_send_buffer s)) (length b - n)))) s)"
  using assms by (simp add: keep_unsent_def sb_make_room_def sb_specs)

lemma keep_unsent_room_guard_witness:
  "keep_unsent [11, 12] 0 window_stuck
     = Some (Break (Err (SendBufferPushFailed (VacantShort 1 2))) window_stuck)
   \<and> quic_process_loop window_quiche
       [Send_Data [1, 2, 3, 4], Send_Data [5, 6, 7, 8, 9, 10], Udp_Data [0], Send_Data [11, 12]]
       window_start
     = Some (Break (Err (SendBufferPushFailed (VacantShort 1 2))) window_stuck)
   \<and> capacity (stream_send_buffer window_stuck)
       - length (sb_bytes (stream_send_buffer window_stuck)) = 5"
proof -
  have buf: "sb_inv (stream_send_buffer window_stuck)"
    "length (sb_bytes (stream_send_buffer window_stuck)) = 2"
    "sb_room (stream_send_buffer window_stuck) = 1" "capacity (stream_send_buffer window_stuck) = 7"
    by (simp_all add: window_stuck_def sb_inv_def sb_bytes_def sb_room_def)
  then show ?thesis
    using keep_unsent_room_guard[OF buf(1), of 0 "[11, 12]"] window_stuck_run by simp
qed

end
