(* ===== verification/Transport_Theorems.thy ===== *)
theory Transport_Theorems
  imports Transport Quic_Theorems
begin

text \<open>
  The properties of the UDP tasks, the two handshakes and the listener.  \<open>datagram_socket\<close> is
  what the write loops rely on of a UDP socket: a send that succeeds sends the whole datagram.
\<close>

section \<open>Datagram sockets\<close>

locale datagram_socket =
  fixes sock :: "'n udp_socket"
    and sent :: "'n \<Rightarrow> bytes list"
  assumes send_ok: "us_send sock b n = (Inr v, n') \<Longrightarrow> v = length b \<and> sent n' = sent n @ [b]"
    and send_err: "us_send sock b n = (Inl e, n') \<Longrightarrow> sent n' = sent n"
begin

lemma udp_send_all_once:
  assumes "b \<noteq> []"
  shows "(\<exists>n'. udp_send_all sock b 0 n = Some (Continue n') \<and> sent n' = sent n @ [b])
    \<or> (\<exists>e n'. udp_send_all sock b 0 n = Some (Break e n') \<and> sent n' = sent n)"
proof -
  obtain r n' where r: "us_send sock b n = (r, n')" by fastforce
  show ?thesis
  proof (cases r)
    case (Inl e)
    then show ?thesis
      using r assms send_err[OF r[unfolded Inl]] by (subst (1 2) udp_send_all.simps) simp
  next
    case (Inr v)
    then have "v = length b" "sent n' = sent n @ [b]" using send_ok[of b n v n'] r by simp_all
    moreover from this have "udp_send_all sock b v n' = Some (Continue n')"
      by (subst udp_send_all.simps) simp
    ultimately show ?thesis
      using r Inr assms by (subst (1 2) udp_send_all.simps) simp
  qed
qed

lemma udp_send_all_cases:
  obtains n' where "udp_send_all sock b 0 n = Some (Continue n')"
      "sent n' = sent n @ filter (\<lambda>x. x \<noteq> []) [b]"
  | e n' where "udp_send_all sock b 0 n = Some (Break e n')" "sent n' = sent n"
proof (cases "b = []")
  case True
  then have "udp_send_all sock b 0 n = Some (Continue n)" by (subst udp_send_all.simps) simp
  then show ?thesis using that(1) True by simp
next
  case False
  then show ?thesis using udp_send_all_once[OF False, of n] that by auto
qed

lemma udp_write_loop_sends:
  "\<exists>k \<le> length bs. \<exists>n'. sent n' = sent n @ filter (\<lambda>x. x \<noteq> []) (take k bs)
     \<and> (k = length bs \<and> udp_write_loop sock (map Some bs) n = Some (Continue n')
        \<or> k < length bs \<and> (\<exists>e. udp_write_loop sock (map Some bs) n = Some (Break e n')))"
proof (induction bs arbitrary: n)
  case (Cons b bs)
  show ?case
  proof (cases rule: udp_send_all_cases[of b n])
    case (1 n1)
    obtain k n' where "k \<le> length bs" "sent n' = sent n1 @ filter (\<lambda>x. x \<noteq> []) (take k bs)"
      "k = length bs \<and> udp_write_loop sock (map Some bs) n1 = Some (Continue n')
        \<or> k < length bs \<and> (\<exists>e. udp_write_loop sock (map Some bs) n1 = Some (Break e n'))"
      using Cons by blast
    then show ?thesis using 1 by (intro exI[of _ "Suc k"]) auto
  next
    case (2 e n1)
    then show ?thesis by (intro exI[of _ 0]) auto
  qed
qed simp

lemma hs_send_one_sent:
  assumes "hs_send_one q sock bsize c n = Hs_Waiting c' n'"
  shows "length (sent n') \<le> Suc (length (sent n))"
  using assms
  by (auto simp: hs_send_one_def dest: send_ok split: prod.splits sum.splits quic_error.splits)

lemma quic_handshake_done:
  assumes "quic_handshake q sock bsize inputs c n = Hs_Done c' n'"
  shows "qc_is_established q c' \<and> length (sent n') \<le> length (sent n) + length inputs"
  using assms
proof (induction inputs arbitrary: c n)
  case Nil
  then show ?case
    by (subst (asm) quic_handshake.simps)
      (auto split: if_splits hs_result.splits simp: hs_send_one_def
        split: prod.splits sum.splits quic_error.splits)
next
  case (Cons i inputs)
  show ?case
  proof (cases "qc_is_established q c")
    case True
    then show ?thesis using Cons.prems by (subst (asm) quic_handshake.simps) simp
  next
    case False
    then obtain c1 n1 where one: "hs_send_one q sock bsize c n = Hs_Waiting c1 n1"
      using Cons.prems
      by (subst (asm) quic_handshake.simps)
        (auto simp: hs_send_one_def split: prod.splits sum.splits quic_error.splits)
    then obtain d r c2 where "i = Hs_Data d" "qc_recv q (take bsize d) c1 = (Inr r, c2)"
      "quic_handshake q sock bsize inputs c2 n1 = Hs_Done c' n'"
      using Cons.prems False
      by (subst (asm) quic_handshake.simps)
        (auto split: hs_input.splits prod.splits sum.splits)
    then show ?thesis using Cons.IH hs_send_one_sent[OF one] by fastforce
  qed
qed

end

record log_socket = ls_sent :: "bytes list"

definition log_udp :: "nat \<Rightarrow> log_socket udp_socket" where
  "log_udp limit =
     \<lparr>us_send = \<lambda>b n. if length b \<le> limit then (Inr (length b), n\<lparr>ls_sent := ls_sent n @ [b]\<rparr>)
                    else (Inl (), n)\<rparr>"

text \<open>A socket that refuses datagrams above a limit.\<close>

interpretation log_udp: datagram_socket "log_udp limit" ls_sent for limit
  by unfold_locales (auto simp: log_udp_def split: if_splits)

section \<open>The server's shared socket\<close>

text \<open>
  The socket on which all connections of a server send.  Seen from one peer it is a socket of
  that peer's own, so what was shown of the write loop over one socket holds for each
  connection; that the connections do not disturb each other is shown of any interleaving of
  their messages.
\<close>

locale shared_socket =
  fixes send_to :: "socket_addr \<Rightarrow> bytes \<Rightarrow> 'n \<Rightarrow> (unit + usize) \<times> 'n"
    and sent_to :: "'n \<Rightarrow> (socket_addr \<times> bytes) list"
  assumes to_ok: "send_to peer b n = (Inr v, n') \<Longrightarrow> v = length b \<and> sent_to n' = sent_to n @ [(peer, b)]"
    and to_err: "send_to peer b n = (Inl e, n') \<Longrightarrow> sent_to n' = sent_to n"
begin

definition log_of :: "socket_addr \<Rightarrow> 'n \<Rightarrow> bytes list" where
  "log_of peer n = map snd (filter (\<lambda>e. fst e = peer) (sent_to n))"

end

sublocale shared_socket \<subseteq> peer: datagram_socket "socket_to send_to p" "log_of p" for p
  by unfold_locales (auto simp: socket_to_def log_of_def dest: to_ok to_err)

context shared_socket begin

lemma own_socket: "datagram_socket (socket_to send_to p) (log_of p)"
  by (rule peer.datagram_socket_axioms)

lemma send_all_log:
  assumes "udp_send_all (socket_to send_to p) b 0 n = Some r"
  shows "sent_to (ctl_state r) = sent_to n
    \<or> sent_to (ctl_state r) = sent_to n @ map (Pair p) (filter (\<lambda>x. x \<noteq> []) [b])"
proof (cases "b = []")
  case True
  then show ?thesis using assms by (subst (asm) udp_send_all.simps) auto
next
  case False
  obtain x n' where x: "send_to p b n = (x, n')" by fastforce
  show ?thesis
  proof (cases x)
    case (Inl e)
    then show ?thesis
      using assms x False to_err[of p b n e n']
      by (subst (asm) udp_send_all.simps) (auto simp: socket_to_def)
  next
    case (Inr v)
    then have "v = length b" "sent_to n' = sent_to n @ [(p, b)]" using to_ok[of p b n v n'] x by auto
    moreover from this have "udp_send_all (socket_to send_to p) b v n' = Some (Continue n')"
      by (subst udp_send_all.simps) simp
    ultimately show ?thesis
      using assms x Inr False by (subst (asm) udp_send_all.simps) (auto simp: socket_to_def)
  qed
qed

lemma write_loop_log:
  "server_udp_write_loop send_to p (map Some bs) n = Some r
    \<Longrightarrow> \<exists>ds. sent_to (ctl_state r) = sent_to n @ map (Pair p) ds"
proof (induction bs arbitrary: n)
  case Nil
  then show ?case by (auto simp: server_udp_write_loop_def)
next
  case (Cons b bs)
  then obtain r1 where r1: "udp_send_all (socket_to send_to p) b 0 n = Some r1"
    and rest: "run_then (Some r1) (udp_write_loop (socket_to send_to p) (map Some bs)) = Some r"
    by (cases "udp_send_all (socket_to send_to p) b 0 n") (auto simp: server_udp_write_loop_def)
  obtain d1 where d1: "sent_to (ctl_state r1) = sent_to n @ map (Pair p) d1"
    using send_all_log[OF r1] by (metis append_Nil2 list.map(1))
  show ?case
  proof (cases r1)
    case (Continue n1)
    then obtain d2 where "sent_to (ctl_state r) = sent_to n1 @ map (Pair p) d2"
      using Cons.IH[of n1] rest by (auto simp: server_udp_write_loop_def)
    then show ?thesis using d1 Continue by (metis append.assoc ctl_state.simps(1) map_append)
  next
    case (Break e n1)
    then show ?thesis using rest d1 by auto
  qed
qed

end

record shared_log = sl_sent :: "(socket_addr \<times> bytes) list"

definition log_send_to :: "nat \<Rightarrow> socket_addr \<Rightarrow> bytes \<Rightarrow> shared_log \<Rightarrow> (unit + usize) \<times> shared_log" where
  "log_send_to limit peer b n =
     (if length b \<le> limit then (Inr (length b), n\<lparr>sl_sent := sl_sent n @ [(peer, b)]\<rparr>)
      else (Inl (), n))"

interpretation log_shared: shared_socket "log_send_to limit" sl_sent for limit
  by unfold_locales (auto simp: log_send_to_def split: if_splits)

section \<open>The server's handshake\<close>

lemma accept_recv_loop_ends:
  assumes "quic_conn q accepted emitted taken backlog unread"
  shows "\<exists>r. accept_recv_loop q data m c = Some r"
proof (induction "length data - m" arbitrary: m c rule: less_induct)
  case less
  show ?case
  proof (cases "m < length data")
    case True
    obtain r c' where recv: "qc_recv q (drop m data) c = (r, c')" by fastforce
    show ?thesis
    proof (cases r)
      case (Inl e)
      then show ?thesis using True recv by (subst accept_recv_loop.simps) simp
    next
      case (Inr k)
      have "0 < k"
        using quic_conn.recv_some[OF assms] recv Inr True by (metis drop_eq_Nil not_le)
      then have "\<exists>r. accept_recv_loop q data (m + k) c' = Some r" using True by (intro less) simp
      then show ?thesis using True recv Inr by (subst accept_recv_loop.simps) simp
    qed
  qed (subst accept_recv_loop.simps, simp)
qed

lemma accept_send_loop_ends:
  assumes "quic_conn q accepted emitted taken backlog unread" and "datagram_socket sock sent"
  shows "\<exists>r. accept_send_loop q sock bsize (c, n) = Some r"
proof (induction "backlog c" arbitrary: c n rule: less_induct)
  case less
  obtain r c' where send: "qc_send q bsize c = (r, c')" by fastforce
  show ?case
  proof (cases r)
    case (Inl e)
    then show ?thesis using send by (cases e; subst accept_send_loop.simps) simp_all
  next
    case (Inr d)
    then have "backlog c' < backlog c" using quic_conn.send_some[OF assms(1)] send by blast
    then have IH: "\<exists>r. accept_send_loop q sock bsize (c', n') = Some r" for n' by (rule less)
    show ?thesis
    proof (cases rule: datagram_socket.udp_send_all_cases[OF assms(2), of d n])
      case (1 n')
      then show ?thesis using send Inr IH[of n'] by (subst accept_send_loop.simps) simp
    next
      case (2 e n')
      then show ?thesis using send Inr by (subst accept_send_loop.simps) simp
    qed
  qed
qed

lemma accept_datagram_ends:
  assumes "quic_conn q accepted emitted taken backlog unread" and "datagram_socket sock sent"
  shows "\<exists>r. accept_datagram q sock bsize header sign accept data st = Some r"
proof -
  obtain known n where st: "st = (known, n)" by (cases st)
  show ?thesis
  proof (cases "header data")
    case (Some dcid)
    show ?thesis
    proof (cases "conn_for sign accept dcid known")
      case (Inr c)
      obtain r where r: "accept_recv_loop q data 0 c = Some r"
        using accept_recv_loop_ends[OF assms(1)] by blast
      show ?thesis
      proof (cases r)
        case (Continue c')
        then show ?thesis
          using r Some Inr accept_send_loop_ends[OF assms, of bsize c' n]
          by (auto simp: accept_datagram_def st)
      qed (use r Some Inr in \<open>simp add: accept_datagram_def st\<close>)
    qed (use Some in \<open>simp add: accept_datagram_def st\<close>)
  qed (simp add: accept_datagram_def st)
qed

definition accept_outcome ::
    "'c quiche \<Rightarrow> bytes option list
      \<Rightarrow> accept_error + (('c option \<times> 'n) \<times> bytes option list) + 'c option \<times> 'n \<Rightarrow> bool" where
  "accept_outcome q inputs r =
     (case r of
        Inl e \<Rightarrow> True
      | Inr (Inl (st, rest)) \<Rightarrow> accept_established q st \<and> (\<exists>used. inputs = used @ rest)
      | Inr (Inr st) \<Rightarrow> \<not> accept_established q st)"

lemma accept_outcome_simps [simp]:
  "accept_outcome q inputs (Inl e)"
  "accept_outcome q inputs (Inr (Inl (st, rest)))
     \<longleftrightarrow> accept_established q st \<and> (\<exists>used. inputs = used @ rest)"
  "accept_outcome q inputs (Inr (Inr st)) \<longleftrightarrow> \<not> accept_established q st"
  by (simp_all add: accept_outcome_def)

lemma accept_outcome_Cons:
  assumes "accept_outcome q inputs r"
  shows "accept_outcome q (i # inputs) r"
proof (cases r)
  case (Inr x)
  show ?thesis
  proof (cases x)
    case (Inl y)
    obtain st rest where "y = (st, rest)" by (cases y)
    then show ?thesis using assms Inr Inl by (auto intro: exI[of _ "i # _"])
  qed (use assms Inr in simp)
qed simp

lemma accept_loop_ends:
  assumes "quic_conn q accepted emitted taken backlog unread" and "datagram_socket sock sent"
  shows "\<exists>r. accept_loop q sock bsize header sign accept inputs st = Some r
    \<and> accept_outcome q inputs r"
proof (induction inputs arbitrary: st)
  case Nil
  show ?case by (subst accept_loop.simps) auto
next
  case (Cons i inputs)
  show ?case
  proof (cases "accept_established q st")
    case True
    then show ?thesis by (subst accept_loop.simps) simp
  next
    case False
    show ?thesis
    proof (cases i)
      case None
      then show ?thesis using False by (subst accept_loop.simps) simp
    next
      case (Some data)
      obtain r where r: "accept_datagram q sock bsize header sign accept data st = Some r"
        using accept_datagram_ends[OF assms] by blast
      show ?thesis
      proof (cases r)
        case (Break e st')
        then show ?thesis using False Some r by (subst accept_loop.simps) simp
      next
        case (Continue st')
        then have "accept_loop q sock bsize header sign accept (i # inputs) st
            = accept_loop q sock bsize header sign accept inputs st'"
          using False Some r by (subst accept_loop.simps) simp
        then show ?thesis using Cons[of st'] accept_outcome_Cons by auto
      qed
    qed
  qed
qed

section \<open>Routing\<close>

definition route_inv :: "listen_state \<Rightarrow> bool" where
  "route_inv s \<longleftrightarrow>
     (\<forall>from c. (from, c) \<in> set (routes s) \<longrightarrow> c < length (accepted_from s) \<and> accepted_from s ! c = from)"

fun datagrams_from :: "usize \<Rightarrow> socket_addr \<Rightarrow> listen_input list \<Rightarrow> bytes list" where
  "datagrams_from bsize src [] = []"
| "datagrams_from bsize src (Datagram from d # inputs) =
     (if from = src then [take bsize d] else []) @ datagrams_from bsize src inputs"
| "datagrams_from bsize src (_ # inputs) = datagrams_from bsize src inputs"

lemma datagrams_from_append:
  "datagrams_from bsize src (xs @ ys) = datagrams_from bsize src xs @ datagrams_from bsize src ys"
  by (induction xs rule: datagrams_from.induct) simp_all

definition routed :: "usize \<Rightarrow> listen_input list \<Rightarrow> listen_state \<Rightarrow> bool" where
  "routed bsize inputs s \<longleftrightarrow> route_inv s
     \<and> (\<forall>c < length (accepted_from s). inboxes s c \<noteq> []
          \<and> subseq (inboxes s c) (datagrams_from bsize (accepted_from s ! c) inputs)
          \<and> subseq (late s c) (datagrams_from bsize (accepted_from s ! c) inputs))
     \<and> (\<forall>c \<ge> length (accepted_from s). late s c = [])"

lemma route_inv_lookup:
  "route_inv s \<Longrightarrow> map_of (routes s) from = Some c \<Longrightarrow>
     c < length (accepted_from s) \<and> accepted_from s ! c = from"
  by (auto simp: route_inv_def dest: map_of_SomeD)

lemma set_alist_update: "set (AList.update k v al) \<subseteq> insert (k, v) (set al)"
  by (induction al) auto

lemma route_set: "route_inv s \<Longrightarrow> set rs \<subseteq> set (routes s) \<Longrightarrow> accepted_from t = accepted_from s \<Longrightarrow>
    routes t = rs \<Longrightarrow> route_inv t"
  by (auto simp: route_inv_def)

lemma routed_step:
  assumes "routed bsize inputs s" and "listen_at_step conf bsize i s = Continue t"
  shows "routed bsize (inputs @ [i]) t"
proof (cases i)
  case (Datagram src d)
  let ?d = "take bsize d"
  have t: "t = on_datagram conf src ?d s" using assms(2) Datagram by simp
  have grow: "subseq xs (datagrams_from bsize z (inputs @ [i]))"
    if "subseq xs (datagrams_from bsize z inputs)" for xs z
    using list_emb_append_mono[OF that list_emb_Nil] by (simp add: datagrams_from_append)
  have add: "subseq (xs @ [?d]) (datagrams_from bsize src (inputs @ [i]))"
    if "subseq xs (datagrams_from bsize src inputs)" for xs
    using that Datagram by (simp add: datagrams_from_append)
  have inv: "route_inv s" using assms(1) by (simp add: routed_def)
  show ?thesis
  proof (cases "map_of (routes s) src")
    case None
    let ?c = "length (accepted_from s)"
    have acc: "accepted_from t = accepted_from s @ [src]" "late t = late s"
      "inboxes t = (inboxes s)(?c := [?d])"
      using t None by (simp_all add: on_datagram_def retain_open_def Let_def)
    have "set (routes t) \<subseteq> insert (src, ?c) (set (routes s))"
      using t None set_alist_update[of src ?c "filter (\<lambda>(src, c). c \<notin> set (gone s)) (routes s)"]
      by (auto simp: on_datagram_def retain_open_def Let_def)
    then have "route_inv t" using inv by (force simp: route_inv_def acc nth_append)
    moreover have "subseq [?d] (datagrams_from bsize src (inputs @ [i]))"
      using add[of "[]"] by simp
    ultimately show ?thesis
      using assms(1) grow by (auto simp: routed_def acc nth_append less_Suc_eq)
  next
    case (Some c)
    note c = route_inv_lookup[OF inv Some]
    have same: "routes t = routes s" "accepted_from t = accepted_from s"
      using t Some by (simp_all add: on_datagram_def)
    have "inboxes t = inboxes s \<and> late t = late s
      \<or> inboxes t = (inboxes s)(c := inboxes s c @ [?d]) \<and> late t = late s
      \<or> inboxes t = inboxes s \<and> late t = (late s)(c := late s c @ [?d])"
      using t Some by (auto simp: on_datagram_def)
    moreover have "route_inv t" using inv same by (simp add: route_inv_def)
    ultimately show ?thesis
      using assms(1) grow add c same by (auto simp: routed_def split: if_splits)
  qed
next
  case Route_Tick
  then show ?thesis
    using assms by (auto simp: routed_def route_inv_def retain_open_def datagrams_from_append)
next
  case (Consumer_Gone c)
  then show ?thesis
    using assms by (auto simp: routed_def route_inv_def datagrams_from_append)
qed (use assms in simp)

lemma routed_run:
  "run_loop (listen_at_step conf bsize) inputs listen_init = Continue t \<Longrightarrow> routed bsize inputs t"
proof (induction inputs arbitrary: t rule: rev_induct)
  case Nil
  then show ?case by (auto simp: listen_init_def routed_def route_inv_def)
next
  case (snoc i inputs)
  then obtain s where "run_loop (listen_at_step conf bsize) inputs listen_init = Continue s"
    "listen_at_step conf bsize i s = Continue t"
    by (auto simp: run_loop_append flow_simps)
  then show ?case using snoc.IH routed_step by blast
qed

section \<open>Properties\<close>

text \<open>The UDP write loop sends each message that is not empty as exactly one datagram, in
  order, over any socket that sends a datagram whole or not at all; it stops at the first that
  cannot be sent, having sent exactly those before it.\<close>

lemma udp_write_loop_datagrams:
  assumes "datagram_socket sock sent"
  shows "\<exists>k \<le> length bs. \<exists>n'. sent n' = sent n @ filter (\<lambda>b. b \<noteq> []) (take k bs)
     \<and> (k = length bs \<and> udp_write_loop sock (map Some bs) n = Some (Continue n')
        \<or> k < length bs \<and> (\<exists>e. udp_write_loop sock (map Some bs) n = Some (Break e n')))"
  by (rule datagram_socket.udp_write_loop_sends[OF assms])

lemma udp_write_loop_datagrams_witness:
  "\<exists>k \<le> length [[1], [], [2, 3], [4, 5, 6 :: byte]]. \<exists>n'.
     ls_sent n' = ls_sent \<lparr>ls_sent = []\<rparr>
        @ filter (\<lambda>b. b \<noteq> []) (take k [[1], [], [2, 3], [4, 5, 6]])
     \<and> (k = length [[1], [], [2, 3], [4, 5, 6 :: byte]]
          \<and> udp_write_loop (log_udp 2) (map Some [[1], [], [2, 3], [4, 5, 6]]) \<lparr>ls_sent = []\<rparr>
              = Some (Continue n')
        \<or> k < length [[1], [], [2, 3], [4, 5, 6 :: byte]]
          \<and> (\<exists>e. udp_write_loop (log_udp 2) (map Some [[1], [], [2, 3], [4, 5, 6]]) \<lparr>ls_sent = []\<rparr>
              = Some (Break e n')))"
  by (rule udp_write_loop_datagrams[OF log_udp.datagram_socket_axioms])

text \<open>C27: The server's write loops share one socket without mixing.  Whatever was sent before, a
  write loop adds to the datagrams of its own peer exactly its messages that are not empty, in
  order, up to the first that cannot be sent, and to those of any other peer nothing.\<close>

theorem server_udp_write_loop_isolated:
  assumes "shared_socket send_to sent_to"
  shows "\<exists>k \<le> length bs. \<exists>n'.
      shared_socket.log_of sent_to p n' = shared_socket.log_of sent_to p n @ filter (\<lambda>b. b \<noteq> []) (take k bs)
    \<and> (\<forall>p'. p' \<noteq> p \<longrightarrow> shared_socket.log_of sent_to p' n' = shared_socket.log_of sent_to p' n)
    \<and> (k = length bs \<and> server_udp_write_loop send_to p (map Some bs) n = Some (Continue n')
       \<or> k < length bs \<and> (\<exists>e. server_udp_write_loop send_to p (map Some bs) n = Some (Break e n')))"
proof -
  have own: "datagram_socket (socket_to send_to p) (shared_socket.log_of sent_to p)"
    using assms by (rule shared_socket.own_socket)
  obtain k n' where k: "k \<le> length bs"
    "shared_socket.log_of sent_to p n' = shared_socket.log_of sent_to p n @ filter (\<lambda>b. b \<noteq> []) (take k bs)"
    "k = length bs \<and> server_udp_write_loop send_to p (map Some bs) n = Some (Continue n')
     \<or> k < length bs \<and> (\<exists>e. server_udp_write_loop send_to p (map Some bs) n = Some (Break e n'))"
    using datagram_socket.udp_write_loop_sends[OF own, of bs n]
    by (auto simp: server_udp_write_loop_def)
  then obtain ds where "sent_to n' = sent_to n @ map (Pair p) ds"
    using shared_socket.write_loop_log[OF assms, of p bs n] by fastforce
  then have "shared_socket.log_of sent_to p' n' = shared_socket.log_of sent_to p' n" if "p' \<noteq> p" for p'
    using that by (auto simp: shared_socket.log_of_def[OF assms])
  with k show ?thesis by blast
qed

theorem server_udp_write_loop_isolated_witness:
  "\<exists>k \<le> 2. \<exists>n'. shared_socket.log_of sl_sent v4_src n' = filter (\<lambda>b. b \<noteq> []) (take k [[1], [2, 3 :: byte]])
    \<and> (k = 2 \<and> server_udp_write_loop (log_send_to 9) v4_src [Some [1], Some [2, 3]] \<lparr>sl_sent = []\<rparr>
         = Some (Continue n')
       \<or> k < 2 \<and> (\<exists>e. server_udp_write_loop (log_send_to 9) v4_src [Some [1], Some [2, 3]] \<lparr>sl_sent = []\<rparr>
         = Some (Break e n')))"
  using server_udp_write_loop_isolated[OF log_shared.shared_socket_axioms, of "[[1], [2, 3]]" v4_src
      "\<lparr>sl_sent = []\<rparr>" 9]
  by (auto simp: log_shared.log_of_def numeral_2_eq_2)


definition slow_quiche :: "window_conn quiche" where
  "slow_quiche = window_quiche\<lparr>qc_is_established := \<lambda>c. 2 \<le> length (wc_inbox c)\<rparr>"

definition two_datagrams :: window_conn where
  "two_datagrams = wc_new\<lparr>wc_outbox := [1, 2, 3, 4, 5]\<rparr>"

lemma slow_handshake_run:
  "quic_handshake slow_quiche (log_udp 9) 3 [Hs_Data [7, 8]] two_datagrams \<lparr>ls_sent = []\<rparr>
     = Hs_Done (two_datagrams\<lparr>wc_outbox := [4, 5], wc_emitted := [[1, 2, 3]], wc_inbox := [7, 8],
         wc_window := window_size\<rparr>) \<lparr>ls_sent = [[1, 2, 3]]\<rparr>"
  by (simp add: quic_handshake.simps slow_quiche_def two_datagrams_def window_quiche_def wc_new_def
      hs_send_one_def log_udp_def wc_send_def wc_recv_def)


text \<open>C20: The server's handshake.  Over a connection and a socket that keep their contracts, it
  handles every sequence of datagrams without hanging: it ends with an established connection
  and the datagrams that follow, or with an error, or it is still waiting and the connection is
  not established.  There is no limit on how long it waits.\<close>

theorem accept_loop_total:
  assumes "quic_conn q accepted emitted taken backlog unread" and "datagram_socket sock sent"
  shows "\<exists>r. accept_loop q sock bsize header sign accept inputs (None, n) = Some r
    \<and> (case r of
         Inl e \<Rightarrow> True
       | Inr (Inl (st, rest)) \<Rightarrow> accept_established q st \<and> (\<exists>used. inputs = used @ rest)
       | Inr (Inr st) \<Rightarrow> \<not> accept_established q st)"
  using accept_loop_ends[OF assms] unfolding accept_outcome_def .

theorem accept_loop_total_witness:
  "\<exists>r. accept_loop window_quiche (log_udp 9) 5 (\<lambda>d. Some (take 1 d)) (\<lambda>d. replicate 32 0)
       (\<lambda>scid. Some wc_new) [Some [1, 2], None] (None, \<lparr>ls_sent = []\<rparr>) = Some r
    \<and> (case r of
         Inl e \<Rightarrow> True
       | Inr (Inl (st, rest)) \<Rightarrow> accept_established window_quiche st
           \<and> (\<exists>used. [Some [1, 2], None] = used @ rest)
       | Inr (Inr st) \<Rightarrow> \<not> accept_established window_quiche st)"
  by (rule accept_loop_total[OF window.quic_conn_axioms log_udp.datagram_socket_axioms])


definition two_sources :: "listen_input list" where
  "two_sources = [Datagram v4_src [1], Datagram (v4_src\<lparr>sa_port := 1\<rparr>) [2], Datagram v4_src [3]]"

lemma two_sources_run:
  "\<exists>t. run_loop (listen_at_step default_channel_config 9) two_sources listen_init = Continue t
     \<and> accepted_from t = [v4_src, v4_src\<lparr>sa_port := 1\<rparr>] \<and> inboxes t 0 = [[1], [3]]"
  by (simp add: two_sources_def on_datagram_def listen_init_def retain_open_def
      default_channel_config_def v4_src_def)




end
