(* ===== verification/Connection.thy ===== *)
theory Connection
  imports Transport_Theorems Link_Theorems
begin

text \<open>
  How \<open>Transport::connect\<close> and \<open>accept_new_conn\<close> wire the loops of one connection, and what the
  wired loops do together: \<open>pipeline_delivers\<close> follows packets through the write loop and the
  process loop of one end and the read loop of the other.
\<close>

section \<open>The tasks of a connection\<close>

text \<open>
  What each spawned loop starts with.  The receiving ends are the events of the loops; the
  senders of the channels are arguments.  Only the client has a UDP read loop of its own.
\<close>

record 'c conn_tasks =
  ct_udp_read_size :: "usize option"
  ct_quic :: "'c quic_state"
  ct_reader :: read_state
  ct_writer :: "bytes chan"

definition connect_tasks ::
    "transport \<Rightarrow> 'c \<Rightarrow> bytes chan \<Rightarrow> bytes chan \<Rightarrow> bytes chan \<Rightarrow> packet chan \<Rightarrow> 'c conn_tasks" where
  "connect_tasks tr c recv_tx send_tx udp_tx resp_tx =
     \<lparr>ct_udp_read_size = Some (udp_read_buffer_size tr),
      ct_quic = quic_init c recv_tx udp_tx (udp_data_buffer_size_of tr)
        (max_stream_read_size (tr_buffer_config tr)) (max_stream_send_size (tr_buffer_config tr)),
      ct_reader = link_read_init (max_stream_read_size (tr_buffer_config tr)) resp_tx,
      ct_writer = send_tx\<rparr>"

definition accept_tasks ::
    "buffer_config \<Rightarrow> 'c \<Rightarrow> bytes chan \<Rightarrow> bytes chan \<Rightarrow> bytes chan \<Rightarrow> packet chan \<Rightarrow> 'c conn_tasks" where
  "accept_tasks bc c recv_tx send_tx udp_tx resp_tx =
     \<lparr>ct_udp_read_size = None,
      ct_quic = quic_init c recv_tx udp_tx
        (max (max_udp_read_size bc) (max_udp_write_size bc))
        (max_stream_read_size bc) (max_stream_send_size bc),
      ct_reader = link_read_init (max_stream_read_size bc) resp_tx,
      ct_writer = send_tx\<rparr>"

text \<open>One end of a connection, of either kind, with fresh channels that stay open.\<close>

definition fresh_end :: "buffer_config \<Rightarrow> 'c \<Rightarrow> 'c conn_tasks \<Rightarrow> bool" where
  "fresh_end bc c ts \<longleftrightarrow>
     (\<exists>rtx stx utx tx. ch_sent stx = [] \<and> chan_live stx \<and> ch_sent tx = [] \<and> chan_live tx
        \<and> (ts = accept_tasks bc c rtx stx utx tx
           \<or> (\<exists>tr. tr_buffer_config tr = bc \<and> ts = connect_tasks tr c rtx stx utx tx)))"

lemma fresh_endE:
  assumes "fresh_end bc c ts"
    and "\<And>rtx utx udp_size read_size tx. \<lbrakk>
      ct_quic ts = quic_init c rtx utx udp_size read_size (max_stream_send_size bc);
      chan_live (ct_writer ts); ch_sent (ct_writer ts) = [];
      ct_reader ts = link_read_init (max_stream_read_size bc) tx; chan_live tx; ch_sent tx = []\<rbrakk>
      \<Longrightarrow> thesis"
  shows thesis
proof -
  obtain rtx stx utx tx where live: "ch_sent stx = []" "chan_live stx" "ch_sent tx = []" "chan_live tx"
    and ts: "ts = accept_tasks bc c rtx stx utx tx
      \<or> (\<exists>tr. tr_buffer_config tr = bc \<and> ts = connect_tasks tr c rtx stx utx tx)"
    using assms(1) unfolding fresh_end_def by blast
  have "\<exists>udp_size. ct_quic ts = quic_init c rtx utx udp_size (max_stream_read_size bc) (max_stream_send_size bc)"
    and "ct_writer ts = stx" "ct_reader ts = link_read_init (max_stream_read_size bc) tx"
    using ts by (auto simp: accept_tasks_def connect_tasks_def)
  then show thesis using live assms(2) by auto
qed

section \<open>From packets to packets\<close>

lemma subseq_map_preimage: "subseq xs (map f ys) \<Longrightarrow> \<exists>zs. subseq zs ys \<and> xs = map f zs"
proof (induction ys arbitrary: xs)
  case (Cons y ys)
  show ?case
  proof (cases xs)
    case (Cons x xs')
    show ?thesis
    proof (cases "x = f y")
      case True
      then have "subseq xs' (map f ys)" using Cons.prems Cons by simp
      then obtain zs where "subseq zs ys" "xs' = map f zs" using Cons.IH by blast
      then show ?thesis using Cons True by (intro exI[of _ "y # zs"]) simp
    next
      case False
      then have "subseq xs (map f ys)" using Cons.prems Cons by simp
      then show ?thesis using Cons.IH by (blast intro: list_emb_Cons)
    qed
  qed (intro exI[of _ "[]"], simp)
qed (intro exI[of _ "[]"], simp)

lemma received_subseq: "subseq (received n ps) ps"
  using received_prefix[of ps n] by (metis prefixI prefix_imp_subseq)

text \<open>What the process loop has passed on, at any moment, is the beginning of whole messages.\<close>

lemma process_loop_kept:
  assumes "quic_conn q accepted emitted taken backlog unread"
    and "accepted c = []" and "send_size < usize_bound"
    and "quic_process_loop q evs (quic_init c rtx utx udp_size read_size send_size) = Some (Continue s)"
  shows "\<exists>kept. subseq kept (sent_data evs) \<and> prefix (accepted (conn s)) (concat kept)
    \<and> (\<forall>b \<in> set kept. length b \<le> send_size)"
proof -
  let ?s = "quic_init c rtx utx udp_size read_size send_size"
  have "sb_inv (stream_send_buffer ?s)" using sb_new_inv[OF assms(3)] by (simp add: quic_init_def)
  then obtain kept where "subseq kept (sent_data evs)"
    "\<forall>b \<in> set kept. length b \<le> capacity (stream_send_buffer ?s)"
    "accepted (conn s) @ sb_bytes (stream_send_buffer s) = concat kept"
    using quic_conn.quic_process_loop_runs[OF assms(1), of ?s evs] assms(2,4)
    by (auto simp: quic_conn.extended_def[OF assms(1)] quic_conn.outgoing_def[OF assms(1)]
        quic_init_def)
  then show ?thesis by (intro exI[of _ kept]) (auto simp: quic_init_def sb_new_def intro: prefixI[OF sym])
qed

text \<open>What the read loop delivers of the beginning of a stream, however it ends.\<close>

lemma read_loop_delivered:
  assumes "deku_io rd wr" and "cap < usize_bound" and "\<forall>p \<in> set qs. wf_packet p"
    and "chan_live tx" and "prefix (concat bs) (deku_io.wires wr qs)"
  shows "\<exists>ds. ch_sent (response_tx (ctl_state (link_read_loop rd (map Some bs) (link_read_init cap tx))))
      = ch_sent tx @ ds \<and> subseq ds qs \<and> (\<forall>p \<in> set ds. total_bytes p \<le> cap)"
proof -
  let ?s = "link_read_init cap tx" and ?r = "link_read_loop rd (map Some bs) (link_read_init cap tx)"
  obtain ext where "deku_io.wires wr qs = concat bs @ ext" using assms(5) by (auto simp: prefix_def)
  then have framed: "deku_io.framed wr qs (concat bs @ ext) ?s"
    using deku_io.framed_init[OF assms(1-4)] by simp
  have inv: "sb_inv (packet_buffer ?s)" and tx: "response_tx ?s = tx"
    and none: "sb_bytes (packet_buffer ?s) = []"
    using assms(2) by (simp_all add: link_read_init_def sb_new_inv)
  have cap: "capacity (packet_buffer ?s) = cap" by (simp add: link_read_init_def sb_new_def)
  obtain k t where t: "ch_sent (response_tx t) = ch_sent tx @ received (length (concat (take k bs))) qs"
    "?r = Continue t \<or> (\<exists>e. ?r = Break e t)"
    using deku_io.link_read_loop_any[OF assms(1) framed] by (auto simp: tx none)
  moreover obtain ds where "ch_sent (response_tx (ctl_state ?r)) = ch_sent tx @ ds"
    "\<forall>p \<in> set ds. total_bytes p \<le> cap"
    using deku_io.read_loop_bound[OF assms(1) inv, of bs] by (auto simp: tx cap)
  ultimately show ?thesis using received_subseq by (intro exI[of _ ds]) auto
qed

lemma pipeline_delivers:
  assumes "deku_io rd wr" and "quic_conn q accepted emitted taken backlog unread"
    and "\<forall>p \<in> set ps. wf_packet p" and "chan_live out" and "ch_sent out = []"
    and "link_write_loop wr (map Some ps) out = Continue out'"
    and "prefix (sent_data evs) (ch_sent out')"
    and "accepted c = []" and "send_size < usize_bound"
    and "quic_process_loop q evs (quic_init c rtx utx udp_size read_size send_size) = Some (Continue s)"
    and "prefix (concat bs) (accepted (conn s))"
    and "cap < usize_bound" and "chan_live tx"
  shows "\<exists>qs. ch_sent (response_tx (ctl_state (link_read_loop rd (map Some bs) (link_read_init cap tx))))
      = ch_sent tx @ qs \<and> subseq qs ps \<and> (\<forall>p \<in> set qs. total_bytes p \<le> min send_size cap)"
proof -
  obtain kept where kept: "subseq kept (sent_data evs)" "prefix (accepted (conn s)) (concat kept)"
    "\<forall>b \<in> set kept. length b \<le> send_size"
    using process_loop_kept[OF assms(2,8,9,10)] by blast
  have "ch_sent out' = map (deku_io.wire wr) ps"
    using link_write_loop_live[OF assms(1,4,3)] assms(5,6) by simp
  then have "subseq kept (map (deku_io.wire wr) ps)"
    using kept(1) assms(7) by (metis prefix_imp_subseq subseq_order.order_trans)
  then obtain ms where ms: "subseq ms ps" "kept = map (deku_io.wire wr) ms"
    using subseq_map_preimage by metis
  then have wf: "\<forall>p \<in> set ms. wf_packet p" using assms(3) list_emb_set[OF ms(1)] by metis
  have send_size: "\<forall>p \<in> set ms. total_bytes p \<le> send_size"
    using kept(3) ms(2) wf deku_io.length_wire[OF assms(1)] by auto
  have "prefix (concat bs) (deku_io.wires wr ms)"
    using prefix_order.order_trans[OF assms(11) kept(2)] ms(2) by (simp add: deku_io.wires_def[OF assms(1)])
  from read_loop_delivered[OF assms(1,12) wf assms(13) this] obtain ds where
    ds: "ch_sent (response_tx (ctl_state (link_read_loop rd (map Some bs) (link_read_init cap tx))))
      = ch_sent tx @ ds" "subseq ds ms" "\<forall>p \<in> set ds. total_bytes p \<le> cap" by blast
  moreover have "\<forall>p \<in> set ds. total_bytes p \<le> send_size" using send_size list_emb_set[OF ds(2)] by metis
  moreover have "subseq ds ps" using ds(2) ms(1) by (rule subseq_order.order_trans)
  ultimately show ?thesis by auto
qed

end
