(* ===== verification/Back_Pressure.thy ===== *)
theory Back_Pressure
  imports Connection
begin

text \<open>
  Who waits for whom.  The other theories take an awaited send at the moment it completes; here
  the waiting itself is the subject.  The write, process and read loops of a connection are
  joined by four bounded channels: requests to the write loop, bytes to the process loop, chunks to
  the read loop, packets to the consumer of the connection.  Each loop is at its \<open>select!\<close> or inside an
  arm, waiting for room on the next channel.  At the client the consumer is the main task, which
  also feeds the request channel and so closes the circle; before the loops are spawned,
  \<open>Transport::connect\<close> itself puts the authentication packet on that channel.

  The channel to the UDP write loop is left out: that loop only waits for the socket.
\<close>

section \<open>The loops of a connection\<close>

datatype writer_pc = Writer_Idle | Writer_Sending bytes
datatype quic_pc = Quic_Idle | Quic_Delivering "bytes list"
datatype reader_pc = Reader_Idle | Reader_Delivering "packet list"

record loops_state =
  lp_writer :: writer_pc
  lp_quic :: quic_pc
  lp_reader :: reader_pc
  lp_read_state :: read_state
  lp_requests :: "packet list"
  lp_to_quic :: "bytes list"
  lp_from_quic :: "bytes list"
  lp_responses :: "packet list"
  lp_over :: bool

text \<open>What a turn of the read loop wants to send.\<close>

definition delivered :: "read_state \<Rightarrow> read_state \<Rightarrow> packet list" where
  "delivered r r' = drop (length (ch_sent (response_tx r))) (ch_sent (response_tx r'))"

text \<open>
  The steps.  A loop at its \<open>select!\<close> may take what has arrived; the data of the peer are the
  environment's.  When a task ends, by a timeout or an error, its channels close and every wait
  on them ends with an error: the connection is given up, \<open>lp_over\<close>.
\<close>

inductive loops_step ::
    "channel_config \<Rightarrow> bit_read \<Rightarrow> bit_write \<Rightarrow> 'a loops_state_scheme \<Rightarrow> 'a loops_state_scheme \<Rightarrow> bool"
  for conf rd wr where
  writer_takes: "\<not> lp_over S \<Longrightarrow> lp_writer S = Writer_Idle
    \<Longrightarrow> lp_requests S = p # ps \<Longrightarrow> packet_to_bytes wr p = Inr b
    \<Longrightarrow> loops_step conf rd wr S (S\<lparr>lp_writer := Writer_Sending b, lp_requests := ps\<rparr>)"
| writer_fails: "\<not> lp_over S \<Longrightarrow> lp_writer S = Writer_Idle
    \<Longrightarrow> lp_requests S = p # ps \<Longrightarrow> packet_to_bytes wr p = Inl e
    \<Longrightarrow> loops_step conf rd wr S (S\<lparr>lp_over := True\<rparr>)"
| writer_sends: "\<not> lp_over S \<Longrightarrow> lp_writer S = Writer_Sending b
    \<Longrightarrow> length (lp_to_quic S) < send_chan_size conf
    \<Longrightarrow> loops_step conf rd wr S (S\<lparr>lp_writer := Writer_Idle, lp_to_quic := lp_to_quic S @ [b]\<rparr>)"
| quic_reads: "\<not> lp_over S \<Longrightarrow> lp_quic S = Quic_Idle
    \<Longrightarrow> loops_step conf rd wr S (S\<lparr>lp_quic := Quic_Delivering bs\<rparr>)"
| quic_takes: "\<not> lp_over S \<Longrightarrow> lp_quic S = Quic_Idle
    \<Longrightarrow> lp_to_quic S = b # bs \<Longrightarrow> loops_step conf rd wr S (S\<lparr>lp_to_quic := bs\<rparr>)"
| quic_delivers: "\<not> lp_over S \<Longrightarrow> lp_quic S = Quic_Delivering (b # bs)
    \<Longrightarrow> length (lp_from_quic S) < recv_chan_size conf
    \<Longrightarrow> loops_step conf rd wr S
          (S\<lparr>lp_quic := Quic_Delivering bs, lp_from_quic := lp_from_quic S @ [b]\<rparr>)"
| quic_delivered: "\<not> lp_over S \<Longrightarrow> lp_quic S = Quic_Delivering []
    \<Longrightarrow> loops_step conf rd wr S (S\<lparr>lp_quic := Quic_Idle\<rparr>)"
| quic_ends: "\<not> lp_over S \<Longrightarrow> lp_quic S = Quic_Idle
    \<Longrightarrow> loops_step conf rd wr S (S\<lparr>lp_over := True\<rparr>)"
| reader_takes: "\<not> lp_over S \<Longrightarrow> lp_reader S = Reader_Idle
    \<Longrightarrow> lp_from_quic S = b # bs \<Longrightarrow> link_read_event rd (Some b) (lp_read_state S) = Continue r
    \<Longrightarrow> loops_step conf rd wr S
          (S\<lparr>lp_reader := Reader_Delivering (delivered (lp_read_state S) r), lp_read_state := r,
             lp_from_quic := bs\<rparr>)"
| reader_fails: "\<not> lp_over S \<Longrightarrow> lp_reader S = Reader_Idle
    \<Longrightarrow> lp_from_quic S = b # bs \<Longrightarrow> link_read_event rd (Some b) (lp_read_state S) = Break e r
    \<Longrightarrow> loops_step conf rd wr S (S\<lparr>lp_over := True\<rparr>)"
| reader_delivers: "\<not> lp_over S \<Longrightarrow> lp_reader S = Reader_Delivering (p # ps)
    \<Longrightarrow> length (lp_responses S) < recv_chan_size conf
    \<Longrightarrow> loops_step conf rd wr S
          (S\<lparr>lp_reader := Reader_Delivering ps, lp_responses := lp_responses S @ [p]\<rparr>)"
| reader_delivered: "\<not> lp_over S \<Longrightarrow> lp_reader S = Reader_Delivering []
    \<Longrightarrow> loops_step conf rd wr S (S\<lparr>lp_reader := Reader_Idle\<rparr>)"

definition loops_wait :: "channel_config \<Rightarrow> 'a loops_state_scheme \<Rightarrow> bool" where
  "loops_wait conf S \<longleftrightarrow>
     (\<exists>b. lp_writer S = Writer_Sending b) \<and> send_chan_size conf \<le> length (lp_to_quic S)
     \<and> (\<exists>b bs. lp_quic S = Quic_Delivering (b # bs)) \<and> recv_chan_size conf \<le> length (lp_from_quic S)
     \<and> (\<exists>p ps. lp_reader S = Reader_Delivering (p # ps)) \<and> recv_chan_size conf \<le> length (lp_responses S)"

lemma loops_wait_no_step: "loops_wait conf S \<Longrightarrow> \<not> loops_step conf rd wr S T"
  by (auto simp: loops_wait_def elim: loops_step.cases)

text \<open>Where no step of a loop is possible, one loop after the other.\<close>

definition loops_stuck :: "channel_config \<Rightarrow> bit_read \<Rightarrow> bit_write \<Rightarrow> 'a loops_state_scheme \<Rightarrow> bool" where
  "loops_stuck conf rd wr S \<longleftrightarrow> (\<forall>T. \<not> loops_step conf rd wr S T)"

lemma loops_stuckD: "loops_stuck conf rd wr S \<Longrightarrow> loops_step conf rd wr S T \<Longrightarrow> P"
  by (simp add: loops_stuck_def)

lemma stuck_writer:
  assumes "loops_stuck conf rd wr S" and "\<not> lp_over S" and "lp_requests S = p # ps"
  shows "\<exists>b. lp_writer S = Writer_Sending b" and "send_chan_size conf \<le> length (lp_to_quic S)"
proof -
  have "lp_writer S \<noteq> Writer_Idle"
  proof
    assume idle: "lp_writer S = Writer_Idle"
    show False
    proof (cases "packet_to_bytes wr p")
      case (Inl e)
      show False by (rule loops_stuckD[OF assms(1) writer_fails[OF assms(2) idle assms(3) Inl]])
    next
      case (Inr b)
      show False by (rule loops_stuckD[OF assms(1) writer_takes[OF assms(2) idle assms(3) Inr]])
    qed
  qed
  then show ex: "\<exists>b. lp_writer S = Writer_Sending b" by (cases "lp_writer S") auto
  show "send_chan_size conf \<le> length (lp_to_quic S)"
    using ex loops_stuckD[OF assms(1)] assms(2) writer_sends by (meson not_le)
qed

lemma stuck_quic:
  assumes "loops_stuck conf rd wr S" and "\<not> lp_over S"
  shows "\<exists>b bs. lp_quic S = Quic_Delivering (b # bs)" and "recv_chan_size conf \<le> length (lp_from_quic S)"
proof -
  have "lp_quic S \<noteq> Quic_Idle" and "lp_quic S \<noteq> Quic_Delivering []"
    using loops_stuckD[OF assms(1)] assms(2) quic_ends quic_delivered by blast+
  then show ex: "\<exists>b bs. lp_quic S = Quic_Delivering (b # bs)" by (metis quic_pc.exhaust neq_Nil_conv)
  show "recv_chan_size conf \<le> length (lp_from_quic S)"
    using ex loops_stuckD[OF assms(1)] assms(2) quic_delivers by (meson not_le)
qed

lemma stuck_reader:
  assumes "loops_stuck conf rd wr S" and "\<not> lp_over S" and "0 < recv_chan_size conf"
  shows "\<exists>p ps. lp_reader S = Reader_Delivering (p # ps)" and "recv_chan_size conf \<le> length (lp_responses S)"
proof -
  obtain b bs where inp: "lp_from_quic S = b # bs"
    using stuck_quic(2)[OF assms(1,2)] assms(3) by (cases "lp_from_quic S") auto
  have "lp_reader S \<noteq> Reader_Idle"
  proof
    assume idle: "lp_reader S = Reader_Idle"
    show False
    proof (cases "link_read_event rd (Some b) (lp_read_state S)")
      case (Continue r)
      show False by (rule loops_stuckD[OF assms(1) reader_takes[OF assms(2) idle inp Continue]])
    next
      case (Break e r)
      show False by (rule loops_stuckD[OF assms(1) reader_fails[OF assms(2) idle inp Break]])
    qed
  qed
  moreover have "lp_reader S \<noteq> Reader_Delivering []"
    using loops_stuckD[OF assms(1)] assms(2) reader_delivered by blast
  ultimately show ex: "\<exists>p ps. lp_reader S = Reader_Delivering (p # ps)"
    by (metis reader_pc.exhaust neq_Nil_conv)
  show "recv_chan_size conf \<le> length (lp_responses S)"
    using ex loops_stuckD[OF assms(1)] assms(2) reader_delivers by (meson not_le)
qed

lemma loops_stuck_iff:
  assumes "\<not> lp_over S" and "lp_requests S \<noteq> []" and "0 < recv_chan_size conf"
  shows "loops_stuck conf rd wr S \<longleftrightarrow> loops_wait conf S"
proof
  assume stuck: "loops_stuck conf rd wr S"
  obtain p ps where "lp_requests S = p # ps" using assms(2) by (cases "lp_requests S") auto
  then show "loops_wait conf S"
    using stuck_writer[OF stuck assms(1)] stuck_quic[OF stuck assms(1)] stuck_reader[OF stuck assms(1,3)]
    by (simp add: loops_wait_def)
qed (simp add: loops_stuck_def loops_wait_no_step)

section \<open>The client\<close>

datatype connect_pc = Handshaking | Sending_Auth | Running
datatype main_pc = Main_Idle | Main_Sending "packet list"

record bp_state = loops_state +
  bp_connect :: connect_pc
  bp_main :: main_pc

definition bp_init :: "read_state \<Rightarrow> bp_state" where
  "bp_init r = \<lparr>lp_writer = Writer_Idle, lp_quic = Quic_Idle, lp_reader = Reader_Idle, lp_read_state = r,
     lp_requests = [], lp_to_quic = [], lp_from_quic = [], lp_responses = [], lp_over = False,
     bp_connect = Handshaking, bp_main = Main_Idle\<rparr>"

text \<open>The response after which the main task sends the packets that subscribe.\<close>

fun grants_auth :: "packet \<Rightarrow> bool" where
  "grants_auth (Response r) \<longleftrightarrow> rs_command r = Auth \<and> rs_status r = Success"
| "grants_auth _ \<longleftrightarrow> False"

text \<open>
  From outside come the ticks and requests of the main task and the number of subscriptions.
\<close>

inductive bp_step :: "channel_config \<Rightarrow> bit_read \<Rightarrow> bit_write \<Rightarrow> packet \<Rightarrow> bp_state \<Rightarrow> bp_state \<Rightarrow> bool"
  for conf rd wr auth where
  main_takes: "\<not> lp_over S \<Longrightarrow> bp_main S = Main_Idle
    \<Longrightarrow> bp_step conf rd wr auth S (S\<lparr>bp_main := Main_Sending [p]\<rparr>)"
| main_sends: "\<not> lp_over S \<Longrightarrow> bp_main S = Main_Sending (p # ps)
    \<Longrightarrow> length (lp_requests S) < send_chan_size conf
    \<Longrightarrow> bp_step conf rd wr auth S
          (S\<lparr>bp_main := Main_Sending ps, lp_requests := lp_requests S @ [p]\<rparr>)"
| main_sent: "\<not> lp_over S \<Longrightarrow> bp_main S = Main_Sending []
    \<Longrightarrow> bp_step conf rd wr auth S (S\<lparr>bp_main := Main_Idle\<rparr>)"
| main_receives: "\<not> lp_over S \<Longrightarrow> bp_main S = Main_Idle \<Longrightarrow> lp_responses S = p # ps
    \<Longrightarrow> qs = [] \<or> grants_auth p
    \<Longrightarrow> bp_step conf rd wr auth S (S\<lparr>bp_main := Main_Sending qs, lp_responses := ps\<rparr>)"
| main_ends: "\<not> lp_over S \<Longrightarrow> bp_main S = Main_Idle
    \<Longrightarrow> bp_step conf rd wr auth S (S\<lparr>lp_over := True\<rparr>)"
| handshake_done: "\<not> lp_over S \<Longrightarrow> bp_connect S = Handshaking
    \<Longrightarrow> bp_step conf rd wr auth S (S\<lparr>bp_connect := Sending_Auth\<rparr>)"
| handshake_fails: "\<not> lp_over S \<Longrightarrow> bp_connect S = Handshaking
    \<Longrightarrow> bp_step conf rd wr auth S (S\<lparr>lp_over := True\<rparr>)"
| auth_sent: "\<not> lp_over S \<Longrightarrow> bp_connect S = Sending_Auth
    \<Longrightarrow> length (lp_requests S) < send_chan_size conf
    \<Longrightarrow> bp_step conf rd wr auth S
          (S\<lparr>bp_connect := Running, lp_requests := lp_requests S @ [auth]\<rparr>)"
| loops: "bp_connect S = Running \<Longrightarrow> loops_step conf rd wr S T \<Longrightarrow> bp_step conf rd wr auth S T"

inductive bp_reachable ::
    "channel_config \<Rightarrow> bit_read \<Rightarrow> bit_write \<Rightarrow> packet \<Rightarrow> read_state \<Rightarrow> bp_state \<Rightarrow> bool"
  for conf rd wr auth r where
  start: "bp_reachable conf rd wr auth r (bp_init r)"
| step: "bp_reachable conf rd wr auth r S \<Longrightarrow> bp_step conf rd wr auth S T
    \<Longrightarrow> bp_reachable conf rd wr auth r T"

section \<open>Deadlock\<close>

text \<open>
  The main task waits for room on the full request channel, and either \<open>connect\<close> waits for room
  there too, before anyone reads from it, or all the loops wait, each behind the next.
\<close>

definition deadlocked :: "channel_config \<Rightarrow> bp_state \<Rightarrow> bool" where
  "deadlocked conf S \<longleftrightarrow> (\<exists>p ps. bp_main S = Main_Sending (p # ps)) \<and> send_chan_size conf \<le> length (lp_requests S)
     \<and> (bp_connect S = Sending_Auth \<or> bp_connect S = Running \<and> loops_wait conf S)"

lemma deadlocked_stuck: "deadlocked conf S \<Longrightarrow> \<not> bp_step conf rd wr auth S T"
  by (auto simp: deadlocked_def loops_wait_no_step elim: bp_step.cases)

definition stuck :: "channel_config \<Rightarrow> bit_read \<Rightarrow> bit_write \<Rightarrow> packet \<Rightarrow> bp_state \<Rightarrow> bool" where
  "stuck conf rd wr auth S \<longleftrightarrow> (\<forall>T. \<not> bp_step conf rd wr auth S T)"

lemma stuckD: "stuck conf rd wr auth S \<Longrightarrow> bp_step conf rd wr auth S T \<Longrightarrow> P"
  by (simp add: stuck_def)

lemma stuck_main:
  assumes "stuck conf rd wr auth S" and "\<not> lp_over S"
  shows "\<exists>p ps. bp_main S = Main_Sending (p # ps)" and "send_chan_size conf \<le> length (lp_requests S)"
proof -
  have "bp_main S \<noteq> Main_Idle" and "bp_main S \<noteq> Main_Sending []"
    using stuckD[OF assms(1)] assms(2) main_ends main_sent by blast+
  then show ex: "\<exists>p ps. bp_main S = Main_Sending (p # ps)" by (metis main_pc.exhaust neq_Nil_conv)
  show "send_chan_size conf \<le> length (lp_requests S)"
    using ex stuckD[OF assms(1)] assms(2) main_sends by (meson not_le)
qed

lemma stuck_deadlocked:
  assumes "stuck conf rd wr auth S" and "\<not> lp_over S" and "0 < send_chan_size conf" and "0 < recv_chan_size conf"
  shows "deadlocked conf S"
proof (cases "bp_connect S")
  case Handshaking
  show ?thesis by (rule stuckD[OF assms(1) handshake_fails[OF assms(2) Handshaking]])
next
  case Sending_Auth
  then show ?thesis using stuck_main[OF assms(1,2)] by (simp add: deadlocked_def)
next
  case Running
  have "lp_requests S \<noteq> []" using stuck_main(2)[OF assms(1,2)] assms(3) by auto
  moreover have "loops_stuck conf rd wr S"
    unfolding loops_stuck_def using stuckD[OF assms(1)] loops[OF Running] by blast
  ultimately have "loops_wait conf S" using loops_stuck_iff assms(2,4) by blast
  then show ?thesis using stuck_main[OF assms(1,2)] Running by (simp add: deadlocked_def)
qed

text \<open>While the handshake runs the main task can fill the request channel.\<close>

definition requests_queued :: "read_state \<Rightarrow> main_pc \<Rightarrow> packet list \<Rightarrow> bp_state" where
  "requests_queued r m ps = (bp_init r)\<lparr>bp_main := m, lp_requests := ps\<rparr>"

lemma requests_queued_sel [simp]:
  "\<not> lp_over (requests_queued r m ps)" "bp_main (requests_queued r m ps) = m"
  "lp_requests (requests_queued r m ps) = ps" "bp_connect (requests_queued r m ps) = Handshaking"
  "(requests_queued r m ps)\<lparr>bp_main := m'\<rparr> = requests_queued r m' ps"
  "(requests_queued r m ps)\<lparr>lp_requests := ps'\<rparr> = requests_queued r m ps'"
  by (simp_all add: requests_queued_def bp_init_def)

lemma requests_fill:
  assumes "length ps \<le> send_chan_size conf"
  shows "bp_reachable conf rd wr auth r (requests_queued r Main_Idle ps)"
  using assms
proof (induction ps rule: rev_induct)
  case Nil
  have "requests_queued r Main_Idle [] = bp_init r" by (simp add: requests_queued_def bp_init_def)
  then show ?case using bp_reachable.start by metis
next
  case (snoc p ps)
  let ?S = "\<lambda>m. requests_queued r m"
  have "bp_step conf rd wr auth (?S Main_Idle ps) (?S (Main_Sending [p]) ps)"
    using main_takes[of "?S Main_Idle ps" conf rd wr auth p] by simp
  moreover have "bp_step conf rd wr auth (?S (Main_Sending [p]) ps) (?S (Main_Sending []) (ps @ [p]))"
    using main_sends[of "?S (Main_Sending [p]) ps" p "[]" conf rd wr auth] snoc.prems by simp
  moreover have "bp_step conf rd wr auth (?S (Main_Sending []) (ps @ [p])) (?S Main_Idle (ps @ [p]))"
    using main_sent[of "?S (Main_Sending []) (ps @ [p])" conf rd wr auth] by simp
  moreover have "bp_reachable conf rd wr auth r (?S Main_Idle ps)" using snoc by simp
  ultimately show ?case by (blast intro: bp_reachable.step)
qed

lemma deadlock_reachable:
  "\<exists>S. bp_reachable conf rd wr auth r S \<and> deadlocked conf S \<and> \<not> lp_over S"
proof -
  let ?ps = "replicate (send_chan_size conf) auth"
  let ?S = "requests_queued r (Main_Sending [auth]) ?ps"
  have "bp_step conf rd wr auth (requests_queued r Main_Idle ?ps) ?S"
    using main_takes[of "requests_queued r Main_Idle ?ps" conf rd wr auth auth] by simp
  then have "bp_reachable conf rd wr auth r ?S"
    using requests_fill[of ?ps conf rd wr auth r] by (auto intro: bp_reachable.step)
  moreover have "bp_step conf rd wr auth ?S (?S\<lparr>bp_connect := Sending_Auth\<rparr>)"
    by (rule handshake_done) simp_all
  ultimately have "bp_reachable conf rd wr auth r (?S\<lparr>bp_connect := Sending_Auth\<rparr>)"
    by (rule bp_reachable.step)
  moreover have "deadlocked conf (?S\<lparr>bp_connect := Sending_Auth\<rparr>)" by (simp add: deadlocked_def)
  moreover have "\<not> lp_over (?S\<lparr>bp_connect := Sending_Auth\<rparr>)" by simp
  ultimately show ?thesis by blast
qed

section \<open>Properties\<close>



end
