(* ===== verification/Server_Pressure.thy ===== *)
theory Server_Pressure
  imports Back_Pressure
begin

text \<open>
  The same at the server.  The consumer of the packets is the main loop of the connection, which
  waits for room on the request channel when it answers a heartbeat or when the handler's \<open>on_auth\<close>
  answers, and for room on the channel of the callback loop when an authentication was granted.
  The callback loop waits inside \<open>on_send\<close>; packets for which its channel had no room wait in
  tasks of their own, and the handlers of requests, responses and pushes are tasks that send
  whenever there is room.  Signals to the management task are taken at once.
\<close>

section \<open>The tasks of a server connection\<close>

datatype srv_main_pc = Srv_Idle | Srv_Sending "packet list" "packet option"
datatype callback_pc = Cb_Idle | Cb_Sending "packet list"

record srv_state = loops_state +
  sv_main :: srv_main_pc
  sv_callback :: callback_pc
  sv_recved :: "packet list"
  sv_deferred :: "packet list"

definition srv_init :: "read_state \<Rightarrow> srv_state" where
  "srv_init r = \<lparr>lp_writer = Writer_Idle, lp_quic = Quic_Idle, lp_reader = Reader_Idle, lp_read_state = r,
     lp_requests = [], lp_to_quic = [], lp_from_quic = [], lp_responses = [], lp_over = False,
     sv_main = Srv_Idle, sv_callback = Cb_Idle, sv_recved = [], sv_deferred = []\<rparr>"

text \<open>
  What the main loop sends for a packet, and what it then hands to the callback loop.  The
  handler decides what it sends in \<open>on_auth\<close> and whether it grants the authentication.
\<close>

fun srv_reaction :: "packet \<Rightarrow> packet list \<Rightarrow> packet option \<Rightarrow> bool" where
  "srv_reaction (Request r) ps handed \<longleftrightarrow>
     (if rq_command r = Heartbeat then ps = [new_heartbeat_response r] \<and> handed = None
      else rq_command r = Auth \<and> handed \<in> {None, Some (Request r)})"
| "srv_reaction _ ps handed \<longleftrightarrow> False"

fun forwarded_at_once :: "packet \<Rightarrow> bool" where
  "forwarded_at_once (Request r) \<longleftrightarrow> rq_command r \<noteq> Heartbeat \<and> rq_command r \<noteq> Auth"
| "forwarded_at_once _ \<longleftrightarrow> True"

inductive srv_step :: "channel_config \<Rightarrow> bit_read \<Rightarrow> bit_write \<Rightarrow> srv_state \<Rightarrow> srv_state \<Rightarrow> bool"
  for conf rd wr where
  srv_loops: "loops_step conf rd wr S T \<Longrightarrow> srv_step conf rd wr S T"
| srv_ends: "\<not> lp_over S \<Longrightarrow> sv_main S = Srv_Idle \<Longrightarrow> srv_step conf rd wr S (S\<lparr>lp_over := True\<rparr>)"
| srv_reacts: "\<not> lp_over S \<Longrightarrow> sv_main S = Srv_Idle \<Longrightarrow> lp_responses S = p # ps
    \<Longrightarrow> srv_reaction p qs handed
    \<Longrightarrow> srv_step conf rd wr S (S\<lparr>lp_responses := ps, sv_main := Srv_Sending qs handed\<rparr>)"
| srv_sends: "\<not> lp_over S \<Longrightarrow> sv_main S = Srv_Sending (p # ps) handed
    \<Longrightarrow> length (lp_requests S) < send_chan_size conf
    \<Longrightarrow> srv_step conf rd wr S
          (S\<lparr>lp_requests := lp_requests S @ [p], sv_main := Srv_Sending ps handed\<rparr>)"
| srv_sent: "\<not> lp_over S \<Longrightarrow> sv_main S = Srv_Sending [] None
    \<Longrightarrow> srv_step conf rd wr S (S\<lparr>sv_main := Srv_Idle\<rparr>)"
| srv_hands: "\<not> lp_over S \<Longrightarrow> sv_main S = Srv_Sending [] (Some p)
    \<Longrightarrow> length (sv_recved S) < process_chan_size conf
    \<Longrightarrow> srv_step conf rd wr S (S\<lparr>sv_main := Srv_Idle, sv_recved := sv_recved S @ [p]\<rparr>)"
| srv_forwards: "\<not> lp_over S \<Longrightarrow> sv_main S = Srv_Idle \<Longrightarrow> lp_responses S = p # ps
    \<Longrightarrow> forwarded_at_once p \<Longrightarrow> length (sv_recved S) < process_chan_size conf
    \<Longrightarrow> srv_step conf rd wr S (S\<lparr>lp_responses := ps, sv_recved := sv_recved S @ [p]\<rparr>)"
| srv_defers: "\<not> lp_over S \<Longrightarrow> sv_main S = Srv_Idle \<Longrightarrow> lp_responses S = p # ps
    \<Longrightarrow> forwarded_at_once p \<Longrightarrow> process_chan_size conf \<le> length (sv_recved S)
    \<Longrightarrow> srv_step conf rd wr S (S\<lparr>lp_responses := ps, sv_deferred := sv_deferred S @ [p]\<rparr>)"
| deferred_sent: "\<not> lp_over S \<Longrightarrow> sv_deferred S = ds @ p # es
    \<Longrightarrow> length (sv_recved S) < process_chan_size conf
    \<Longrightarrow> srv_step conf rd wr S (S\<lparr>sv_recved := sv_recved S @ [p], sv_deferred := ds @ es\<rparr>)"
| callback_takes_one: "\<not> lp_over S \<Longrightarrow> sv_callback S = Cb_Idle \<Longrightarrow> sv_recved S = p # ps
    \<Longrightarrow> srv_step conf rd wr S (S\<lparr>sv_recved := ps\<rparr>)"
| broadcast_arrives: "\<not> lp_over S \<Longrightarrow> sv_callback S = Cb_Idle
    \<Longrightarrow> srv_step conf rd wr S (S\<lparr>sv_callback := Cb_Sending ps\<rparr>)"
| callback_sends: "\<not> lp_over S \<Longrightarrow> sv_callback S = Cb_Sending (p # ps)
    \<Longrightarrow> length (lp_requests S) < send_chan_size conf
    \<Longrightarrow> srv_step conf rd wr S
          (S\<lparr>lp_requests := lp_requests S @ [p], sv_callback := Cb_Sending ps\<rparr>)"
| callback_sent: "\<not> lp_over S \<Longrightarrow> sv_callback S = Cb_Sending []
    \<Longrightarrow> srv_step conf rd wr S (S\<lparr>sv_callback := Cb_Idle\<rparr>)"
| handler_sends: "\<not> lp_over S \<Longrightarrow> length (lp_requests S) < send_chan_size conf
    \<Longrightarrow> srv_step conf rd wr S (S\<lparr>lp_requests := lp_requests S @ [p]\<rparr>)"

abbreviation srv_reaches :: "channel_config \<Rightarrow> bit_read \<Rightarrow> bit_write \<Rightarrow> srv_state \<Rightarrow> srv_state \<Rightarrow> bool" where
  "srv_reaches conf rd wr \<equiv> (srv_step conf rd wr)\<^sup>*\<^sup>*"

lemma step_then: "srv_step conf rd wr S T \<Longrightarrow> srv_reaches conf rd wr T U \<Longrightarrow> srv_reaches conf rd wr S U"
  by (rule converse_rtranclp_into_rtranclp)

lemma then_step: "srv_reaches conf rd wr S T \<Longrightarrow> srv_step conf rd wr T U \<Longrightarrow> srv_reaches conf rd wr S U"
  by (rule rtranclp.rtrancl_into_rtrancl)

section \<open>Deadlock\<close>

text \<open>The main loop waits for room on the request channel, behind all the loops.\<close>

definition main_blocked :: "channel_config \<Rightarrow> srv_state \<Rightarrow> bool" where
  "main_blocked conf S \<longleftrightarrow> (\<exists>p ps handed. sv_main S = Srv_Sending (p # ps) handed)
     \<and> send_chan_size conf \<le> length (lp_requests S) \<and> loops_wait conf S"

text \<open>No task of the connection can go on.\<close>

definition srv_deadlocked :: "channel_config \<Rightarrow> srv_state \<Rightarrow> bool" where
  "srv_deadlocked conf S \<longleftrightarrow> send_chan_size conf \<le> length (lp_requests S) \<and> loops_wait conf S
     \<and> (\<exists>p ps. sv_callback S = Cb_Sending (p # ps))
     \<and> ((\<exists>p ps handed. sv_main S = Srv_Sending (p # ps) handed)
        \<or> (\<exists>p. sv_main S = Srv_Sending [] (Some p)) \<and> process_chan_size conf \<le> length (sv_recved S))
     \<and> (sv_deferred S = [] \<or> process_chan_size conf \<le> length (sv_recved S))"

lemma srv_deadlocked_no_step: "srv_deadlocked conf S \<Longrightarrow> \<not> srv_step conf rd wr S T"
  by (auto simp: srv_deadlocked_def loops_wait_no_step elim!: srv_step.cases)

lemma loops_wait_more:
  "loops_wait conf (S\<lparr>sv_main := m\<rparr>) = loops_wait conf S"
  "loops_wait conf (S\<lparr>sv_callback := c\<rparr>) = loops_wait conf S"
  "loops_wait conf (S\<lparr>sv_recved := ps\<rparr>) = loops_wait conf S"
  "loops_wait conf (S\<lparr>sv_recved := ps, sv_deferred := qs\<rparr>) = loops_wait conf S"
  by (simp_all add: loops_wait_def)

lemma main_blocked_stays: "srv_step conf rd wr S T \<Longrightarrow> main_blocked conf S \<Longrightarrow> main_blocked conf T"
  by (cases rule: srv_step.cases, assumption)
    (auto simp: main_blocked_def loops_wait_no_step loops_wait_more)

lemma blocked_for_ever: "srv_reaches conf rd wr S T \<Longrightarrow> main_blocked conf S \<Longrightarrow> main_blocked conf T"
  by (induction rule: rtranclp_induct) (auto intro: main_blocked_stays)

text \<open>Where no step is possible, all wait.\<close>

lemma srv_stuck_deadlocked:
  assumes stuck: "\<And>T. \<not> srv_step conf rd wr S T" and "\<not> lp_over S"
    and "0 < send_chan_size conf" and "0 < recv_chan_size conf"
  shows "srv_deadlocked conf S"
proof -
  have full: "send_chan_size conf \<le> length (lp_requests S)"
    using stuck handler_sends[OF assms(2)] by (meson not_le)
  then have "lp_requests S \<noteq> []" using assms(3) by auto
  moreover have "loops_stuck conf rd wr S" unfolding loops_stuck_def using stuck srv_loops by blast
  ultimately have wait: "loops_wait conf S" using loops_stuck_iff assms(2,4) by blast
  have "sv_callback S \<noteq> Cb_Idle" "sv_callback S \<noteq> Cb_Sending []"
    using stuck broadcast_arrives[OF assms(2)] callback_sent[OF assms(2)] by blast+
  then have callback: "\<exists>p ps. sv_callback S = Cb_Sending (p # ps)"
    by (metis callback_pc.exhaust neq_Nil_conv)
  have "sv_main S \<noteq> Srv_Idle" "sv_main S \<noteq> Srv_Sending [] None"
    using stuck srv_ends[OF assms(2)] srv_sent[OF assms(2)] by blast+
  then have "(\<exists>p ps handed. sv_main S = Srv_Sending (p # ps) handed) \<or> (\<exists>p. sv_main S = Srv_Sending [] (Some p))"
    by (metis srv_main_pc.exhaust neq_Nil_conv option.exhaust)
  moreover have "process_chan_size conf \<le> length (sv_recved S)" if "sv_main S = Srv_Sending [] (Some p)" for p
    using that stuck srv_hands[OF assms(2)] by (meson not_le)
  moreover have "process_chan_size conf \<le> length (sv_recved S)" if "sv_deferred S = p # ps" for p ps
    using that stuck deferred_sent[OF assms(2), of "[]" p ps] by (metis append_Nil not_le)
  ultimately show ?thesis
    using full wait callback unfolding srv_deadlocked_def by (metis neq_Nil_conv)
qed

section \<open>Heartbeats alone block the main loop\<close>

text \<open>
  A state in which the process loop holds the chunks \<open>cs\<close>, the read loop the packets \<open>ps\<close>; and
  the steps between such states while the peer has its heartbeats \<open>h\<close> answered by \<open>a\<close>.
\<close>

definition srv_at :: "read_state \<Rightarrow> writer_pc \<Rightarrow> bytes list \<Rightarrow> packet list \<Rightarrow> packet list \<Rightarrow> bytes list
    \<Rightarrow> bytes list \<Rightarrow> packet list \<Rightarrow> srv_main_pc \<Rightarrow> srv_state" where
  "srv_at r w cs ps reqs tq fq resps m = \<lparr>lp_writer = w, lp_quic = Quic_Delivering cs,
     lp_reader = Reader_Delivering ps, lp_read_state = r, lp_requests = reqs, lp_to_quic = tq,
     lp_from_quic = fq, lp_responses = resps, lp_over = False, sv_main = m,
     sv_callback = Cb_Idle, sv_recved = [], sv_deferred = []\<rparr>"

lemma at_reader:
  "length resps < recv_chan_size conf
    \<Longrightarrow> srv_step conf rd wr (srv_at r w cs (p # ps) reqs tq fq resps m) (srv_at r w cs ps reqs tq fq (resps @ [p]) m)"
  using srv_loops[OF reader_delivers[of "srv_at r w cs (p # ps) reqs tq fq resps m" p ps conf rd wr]]
  by (simp add: srv_at_def)

lemma at_quic:
  "length fq < recv_chan_size conf
    \<Longrightarrow> srv_step conf rd wr (srv_at r w (c # cs) ps reqs tq fq resps m) (srv_at r w cs ps reqs tq (fq @ [c]) resps m)"
  using srv_loops[OF quic_delivers[of "srv_at r w (c # cs) ps reqs tq fq resps m" c cs conf rd wr]]
  by (simp add: srv_at_def)

lemma at_reacts:
  "rq_command h = Heartbeat \<Longrightarrow> srv_step conf rd wr (srv_at r w cs ps reqs tq fq (Request h # resps) Srv_Idle)
     (srv_at r w cs ps reqs tq fq resps (Srv_Sending [new_heartbeat_response h] None))"
  using srv_reacts[of "srv_at r w cs ps reqs tq fq (Request h # resps) Srv_Idle" "Request h" resps
      "[new_heartbeat_response h]" None conf rd wr]
  by (simp add: srv_at_def)

lemma at_sends:
  "length reqs < send_chan_size conf \<Longrightarrow> srv_step conf rd wr
     (srv_at r w cs ps reqs tq fq resps (Srv_Sending (a # as) None))
     (srv_at r w cs ps (reqs @ [a]) tq fq resps (Srv_Sending as None))"
  using srv_sends[of "srv_at r w cs ps reqs tq fq resps (Srv_Sending (a # as) None)" a as None conf rd wr]
  by (simp add: srv_at_def)

lemma at_sent:
  "srv_step conf rd wr (srv_at r w cs ps reqs tq fq resps (Srv_Sending [] None)) (srv_at r w cs ps reqs tq fq resps Srv_Idle)"
  using srv_sent[of "srv_at r w cs ps reqs tq fq resps (Srv_Sending [] None)" conf rd wr]
  by (simp add: srv_at_def)

lemma at_writer_takes:
  "packet_to_bytes wr a = Inr b \<Longrightarrow> srv_step conf rd wr
     (srv_at r Writer_Idle cs ps (a # reqs) tq fq resps m) (srv_at r (Writer_Sending b) cs ps reqs tq fq resps m)"
  using srv_loops[OF writer_takes[of "srv_at r Writer_Idle cs ps (a # reqs) tq fq resps m" a reqs wr b conf rd]]
  by (simp add: srv_at_def)

lemma at_writer_sends:
  "length tq < send_chan_size conf \<Longrightarrow> srv_step conf rd wr
     (srv_at r (Writer_Sending b) cs ps reqs tq fq resps m) (srv_at r Writer_Idle cs ps reqs (tq @ [b]) fq resps m)"
  using srv_loops[OF writer_sends[of "srv_at r (Writer_Sending b) cs ps reqs tq fq resps m" b conf rd wr]]
  by (simp add: srv_at_def)

text \<open>One heartbeat is answered; the answer goes as far as there is room.\<close>

lemma heartbeat_round:
  assumes "rq_command h = Heartbeat" and "length reqs < send_chan_size conf" and "0 < recv_chan_size conf"
  shows "srv_reaches conf rd wr (srv_at r w cs (Request h # ps) reqs tq fq [] Srv_Idle)
    (srv_at r w cs ps (reqs @ [new_heartbeat_response h]) tq fq [] Srv_Idle)"
proof -
  have "length ([] :: packet list) < recv_chan_size conf" using assms(3) by simp
  from at_reader[OF this] have 1: "srv_step conf rd wr (srv_at r w cs (Request h # ps) reqs tq fq [] Srv_Idle)
      (srv_at r w cs ps reqs tq fq [Request h] Srv_Idle)"
    unfolding append_Nil .
  show ?thesis
    by (rule step_then[OF 1] step_then[OF at_reacts[OF assms(1)]] step_then[OF at_sends[OF assms(2)]]
        step_then[OF at_sent] rtranclp.rtrancl_refl)+
qed

lemma responses_fill:
  "k + length resps \<le> recv_chan_size conf \<Longrightarrow> srv_reaches conf rd wr
     (srv_at r w cs (replicate k p @ ps) reqs tq fq resps m) (srv_at r w cs ps reqs tq fq (resps @ replicate k p) m)"
proof (induction k arbitrary: resps)
  case (Suc k)
  then have "length resps < recv_chan_size conf" by simp
  from step_then[OF at_reader[OF this] Suc.IH] Suc.prems
  show ?case by simp
qed simp

lemma chunks_fill:
  "k + length fq \<le> recv_chan_size conf \<Longrightarrow> srv_reaches conf rd wr
     (srv_at r w (replicate k c @ cs) ps reqs tq fq resps m) (srv_at r w cs ps reqs tq (fq @ replicate k c) resps m)"
proof (induction k arbitrary: fq)
  case (Suc k)
  then have "length fq < recv_chan_size conf" by simp
  from step_then[OF at_quic[OF this] Suc.IH] Suc.prems
  show ?case by simp
qed simp

lemma requests_fill_up:
  assumes "rq_command h = Heartbeat" and "0 < recv_chan_size conf"
  shows "k + length reqs \<le> send_chan_size conf \<Longrightarrow> srv_reaches conf rd wr
     (srv_at r w cs (replicate k (Request h) @ ps) reqs tq fq [] Srv_Idle)
     (srv_at r w cs ps (reqs @ replicate k (new_heartbeat_response h)) tq fq [] Srv_Idle)"
proof (induction k arbitrary: reqs)
  case (Suc k)
  then have "length reqs < send_chan_size conf" by simp
  from rtranclp_trans[OF heartbeat_round[OF assms(1) this assms(2)] Suc.IH] Suc.prems
  show ?case by simp
qed simp

lemma writer_round:
  assumes "rq_command h = Heartbeat" and "0 < recv_chan_size conf" and "0 < send_chan_size conf"
    and "packet_to_bytes wr (new_heartbeat_response h) = Inr b"
  shows "srv_reaches conf rd wr (srv_at r Writer_Idle cs (Request h # ps) [] tq fq [] Srv_Idle)
    (srv_at r (Writer_Sending b) cs ps [] tq fq [] Srv_Idle)"
proof -
  have "length ([] :: packet list) < send_chan_size conf" using assms(3) by simp
  from then_step[OF heartbeat_round[OF assms(1) this assms(2), unfolded append_Nil] at_writer_takes[OF assms(4)]]
  show ?thesis .
qed

lemma to_quic_fills:
  assumes "rq_command h = Heartbeat" and "0 < recv_chan_size conf"
    and "packet_to_bytes wr (new_heartbeat_response h) = Inr b"
  shows "k + length tq \<le> send_chan_size conf \<Longrightarrow> srv_reaches conf rd wr
     (srv_at r Writer_Idle cs (replicate k (Request h) @ ps) [] tq fq [] Srv_Idle)
     (srv_at r Writer_Idle cs ps [] (tq @ replicate k b) fq [] Srv_Idle)"
proof (induction k arbitrary: tq)
  case (Suc k)
  then have room: "length tq < send_chan_size conf" and pos: "0 < send_chan_size conf" by simp_all
  from rtranclp_trans[OF then_step[OF writer_round[OF assms(1,2) pos assms(3)]
      at_writer_sends[OF room]] Suc.IH] Suc.prems
  show ?case by simp
qed simp

text \<open>A chunk in which \<open>k\<close> packets arrive.\<close>

lemma chunk_of_packets:
  assumes "deku_io rd wr" and "wf_packet p" and "chan_live tx" and "cap < usize_bound"
    and "0 < k" and "k * total_bytes p \<le> cap"
  shows "\<exists>b r. link_read_event rd (Some b) (link_read_init cap tx) = Continue r
    \<and> delivered (link_read_init cap tx) r = replicate k p"
proof -
  let ?ps = "replicate k p" and ?s = "link_read_init cap tx"
  define b where "b = deku_io.wires wr ?ps"
  have wf: "\<forall>q \<in> set ?ps. wf_packet q" using assms(2) by simp
  have len: "length b = k * total_bytes p"
    using deku_io.length_wires[OF assms(1) wf] by (simp add: b_def stream_size_def sum_list_replicate)
  have "deku_io.framed wr ?ps (concat [b] @ []) ?s"
    using deku_io.framed_init[OF assms(1,4) wf assms(3)] by (simp add: b_def)
  moreover have "chunks_fit cap ?ps 0 [b]" using assms(5,6) len total_bytes_pos[of p] by simp
  ultimately obtain r where "link_read_loop rd [Some b] ?s = Continue r"
    and tx: "response_tx r = tx\<lparr>ch_sent := ch_sent tx @ received (length b) ?ps\<rparr>"
    using deku_io.link_read_loop_fits[OF assms(1), of ?ps "[b]" "[]" ?s]
    by (auto simp: link_read_init_def)
  then have "link_read_event rd (Some b) ?s = Continue r"
    by (cases "link_read_step rd b ?s") (auto simp: link_read_loop_def)
  moreover have "received (length b) ?ps = ?ps"
    by (rule received_all) (simp add: len stream_size_def sum_list_replicate)
  then have "delivered ?s r = ?ps" using tx by (simp add: delivered_def link_read_init_def)
  ultimately show ?thesis by blast
qed

lemma heartbeat_response_wf: "wf_packet (Request h) \<Longrightarrow> wf_packet (new_heartbeat_response h)"
  by (simp add: new_heartbeat_response_def wf_body_def)

lemma read_up_to:
  assumes "link_read_event rd (Some b) r0 = Continue r" and "0 < recv_chan_size conf"
  shows "srv_reaches conf rd wr (srv_init r0) (srv_at r Writer_Idle cs (delivered r0 r) [] [] [] [] Srv_Idle)"
proof -
  let ?S0 = "srv_init r0"
  let ?S1 = "?S0\<lparr>lp_quic := Quic_Delivering (b # cs)\<rparr>"
  let ?S2 = "?S0\<lparr>lp_quic := Quic_Delivering cs, lp_from_quic := [b]\<rparr>"
  let ?S3 = "srv_at r Writer_Idle cs (delivered r0 r) [] [] [] [] Srv_Idle"
  have "srv_step conf rd wr ?S0 ?S1"
    by (rule srv_loops[OF quic_reads]) (simp_all add: srv_init_def)
  moreover have "srv_step conf rd wr ?S1 ?S2"
    using srv_loops[OF quic_delivers[of ?S1 b cs conf rd wr]] assms(2) by (simp add: srv_init_def)
  moreover have "srv_step conf rd wr ?S2 ?S3"
    using srv_loops[OF reader_takes[of ?S2 b "[]" rd r conf wr]] assms(1)
    by (simp add: srv_init_def srv_at_def)
  ultimately show ?thesis by (blast intro: step_then)
qed

lemma main_blocked_reachable:
  assumes io: "deku_io rd wr" and h: "wf_packet (Request h)" "rq_command h = Heartbeat"
    and tx: "chan_live tx" "cap < usize_bound"
    and pos: "0 < send_chan_size conf" "0 < recv_chan_size conf"
    and room: "(2 * send_chan_size conf + recv_chan_size conf + 3) * total_bytes (Request h) \<le> cap"
  shows "\<exists>D. srv_reaches conf rd wr (srv_init (link_read_init cap tx)) D \<and> \<not> lp_over D \<and> main_blocked conf D"
proof -
  let ?n = "send_chan_size conf" and ?m = "recv_chan_size conf" and ?h = "Request h"
  let ?a = "new_heartbeat_response h" and ?r0 = "link_read_init cap tx"
  have count: "replicate (2 * ?n + ?m + 3) ?h
      = replicate ?n ?h @ ?h # replicate ?n ?h @ ?h # replicate ?m ?h @ [?h]"
    by (simp add: replicate_add[symmetric] replicate_app_Cons_same numeral_eq_Suc flip: replicate_Suc)
  obtain b r where b: "link_read_event rd (Some b) ?r0 = Continue r"
      "delivered ?r0 r = replicate (2 * ?n + ?m + 3) ?h"
    using chunk_of_packets[OF io h(1) tx _ room] by auto
  obtain c where c: "packet_to_bytes wr ?a = Inr c"
    using deku_io.packet_to_bytes_wire[OF io heartbeat_response_wf[OF h(1)]] by blast
  let ?D = "srv_at r (Writer_Sending c) [b] [?h] (replicate ?n ?a) (replicate ?n c) (replicate ?m b)
      (replicate ?m ?h) (Srv_Sending [?a] None)"
  let ?at = "\<lambda>w cs ps reqs tq. srv_at r w cs ps reqs tq (replicate ?m b) [] Srv_Idle"
  let ?E = "srv_at r (Writer_Sending c) [b] (replicate ?m ?h @ [?h]) (replicate ?n ?a) (replicate ?n c)
      (replicate ?m b)"
  have "srv_reaches conf rd wr (srv_init ?r0) (srv_at r Writer_Idle (replicate ?m b @ [b]) (delivered ?r0 r) [] [] [] [] Srv_Idle)"
    by (rule read_up_to[OF b(1) pos(2)])
  also have "srv_reaches conf rd wr \<dots> (?at Writer_Idle [b] (delivered ?r0 r) [] [])"
    using chunks_fill[where k = ?m and fq = "[]"] by simp
  also have "srv_reaches conf rd wr \<dots>
      (?at Writer_Idle [b] (?h # replicate ?n ?h @ ?h # replicate ?m ?h @ [?h]) [] (replicate ?n c))"
    unfolding b(2) count using to_quic_fills[OF h(2) pos(2) c, where k = ?n and tq = "[]"] by simp
  also have "srv_reaches conf rd wr \<dots>
      (?at (Writer_Sending c) [b] (replicate ?n ?h @ ?h # replicate ?m ?h @ [?h]) [] (replicate ?n c))"
    by (rule writer_round[OF h(2) pos(2,1) c])
  also have "srv_reaches conf rd wr \<dots>
      (?at (Writer_Sending c) [b] (?h # replicate ?m ?h @ [?h]) (replicate ?n ?a) (replicate ?n c))"
    using requests_fill_up[OF h(2) pos(2), where k = ?n and reqs = "[]"] by simp
  also have "srv_step conf rd wr \<dots> (?E [?h] Srv_Idle)"
    using at_reader[where resps = "[]"] pos(2) by simp
  also have "srv_step conf rd wr \<dots> (?E [] (Srv_Sending [?a] None))" by (rule at_reacts[OF h(2)])
  also have "srv_reaches conf rd wr \<dots> ?D"
    using responses_fill[where k = ?m and resps = "[]"] by simp
  finally have "srv_reaches conf rd wr (srv_init ?r0) ?D" .
  moreover have "\<not> lp_over ?D \<and> main_blocked conf ?D"
    by (simp add: srv_at_def main_blocked_def loops_wait_def)
  ultimately show ?thesis by blast
qed

section \<open>Properties\<close>

text \<open>C15: When a connection of the server hangs.  With channels of any positive size, the tasks of a
  connection that has not ended can make a step, unless all of them wait behind full channels.
  Once the main loop waits for room on the request channel behind the waiting loops, this stays
  so whatever the peer, the handlers and the broadcasts do: it never again looks at the heartbeat
  timeout or the exit signal, so the connection is never ended.  And a peer can bring it there:
  when the process loop reads enough heartbeats in one go, the main loop is blocked by its answers
  to them, for which the process loop has no time.\<close>

theorem server_connection_hangs:
  assumes "deku_io rd wr" and "wf_packet (Request h)" and "rq_command h = Heartbeat"
    and "chan_live tx" and "cap < usize_bound"
    and "0 < send_chan_size conf" and "0 < recv_chan_size conf"
    and "(2 * send_chan_size conf + recv_chan_size conf + 3) * total_bytes (Request h) \<le> cap"
  shows "(\<not> lp_over S \<longrightarrow> ((\<exists>T. srv_step conf rd wr S T) \<longleftrightarrow> \<not> srv_deadlocked conf S))
    \<and> (srv_reaches conf rd wr S T \<and> main_blocked conf S \<longrightarrow> main_blocked conf T)
    \<and> (\<exists>D. srv_reaches conf rd wr (srv_init (link_read_init cap tx)) D \<and> \<not> lp_over D \<and> main_blocked conf D)"
  using srv_deadlocked_no_step srv_stuck_deadlocked[OF _ _ assms(6,7)] blocked_for_ever
    main_blocked_reachable[OF assms] by metis

definition narrow_channels :: channel_config where
  "narrow_channels = \<lparr>recv_chan_size = 1, send_chan_size = 1, signal_chan_size = 1, process_chan_size = 1\<rparr>"

definition bare_heartbeat :: request where
  "bare_heartbeat = \<lparr>rq_reserved = 0, rq_command = Heartbeat, rq_id = 1, rq_timeout = 5, rq_body_len = 0,
     rq_body = []\<rparr>"

theorem server_connection_hangs_witness:
  "\<exists>D. srv_reaches narrow_channels rd_msb wr_msb (srv_init (link_read_init 64 live_chan)) D
     \<and> (\<forall>T. srv_reaches narrow_channels rd_msb wr_msb D T \<longrightarrow> main_blocked narrow_channels T)"
proof -
  have "wf_packet (Request bare_heartbeat)" "rq_command bare_heartbeat = Heartbeat"
    "0 < send_chan_size narrow_channels" "0 < recv_chan_size narrow_channels"
    "(2 * send_chan_size narrow_channels + recv_chan_size narrow_channels + 3) * total_bytes (Request bare_heartbeat) \<le> 64"
    by (simp_all add: bare_heartbeat_def narrow_channels_def wf_body_def header_sizes)
  moreover have "chan_live live_chan" "(64 :: usize) < usize_bound" by simp_all
  ultimately show ?thesis
    using server_connection_hangs[OF msb.deku_io_axioms, of bare_heartbeat live_chan 64 narrow_channels] by blast
qed

end
