(* ===== verification/Messages.thy ===== *)
theory Messages
  imports Packets
begin

text \<open>
  The typed payloads of packets: the conversions of \<open>link/src/packet_utils.rs\<close> from a response
  to a decoded control message, and \<open>Quotation\<close> with \<open>parse_quotation\<close> of
  \<open>link/src/packets.rs\<close>.  The six quotation payloads are messages that \<open>prost\<close> generates from
  \<open>base.proto\<close>; their types are type variables and their codecs the fields of a parameter.
\<close>

section \<open>Converting responses\<close>

datatype convert_error = DecodeFailed | UnsupportedCommand command

definition decode_as :: "(bytes \<Rightarrow> 'm option) \<Rightarrow> bytes \<Rightarrow> convert_error + 'm" where
  "decode_as dec body = (case dec body of None \<Rightarrow> Inl DecodeFailed | Some m \<Rightarrow> Inr m)"

definition try_from_subscribe :: "prost \<Rightarrow> response \<Rightarrow> convert_error + subscribe_response" where
  "try_from_subscribe pb response =
     (case rs_command response of
        CmdSubAllType \<Rightarrow> decode_as (dec_subscribe_response pb) (rs_body response)
      | CmdSubOrderBook \<Rightarrow> decode_as (dec_subscribe_response pb) (rs_body response)
      | CmdSubTrades \<Rightarrow> decode_as (dec_subscribe_response pb) (rs_body response)
      | CmdSubBrokers \<Rightarrow> decode_as (dec_subscribe_response pb) (rs_body response)
      | CmdSubDepth \<Rightarrow> decode_as (dec_subscribe_response pb) (rs_body response)
      | CmdSubMarketInfo \<Rightarrow> decode_as (dec_subscribe_response pb) (rs_body response)
      | c \<Rightarrow> Inl (UnsupportedCommand c))"

definition try_from_auth :: "prost \<Rightarrow> response \<Rightarrow> convert_error + auth_response" where
  "try_from_auth pb response =
     (case rs_command response of
        Auth \<Rightarrow> decode_as (dec_auth_response pb) (rs_body response)
      | c \<Rightarrow> Inl (UnsupportedCommand c))"

definition try_from_unsubscribe :: "prost \<Rightarrow> response \<Rightarrow> convert_error + unsubscribe_response" where
  "try_from_unsubscribe pb response =
     (case rs_command response of
        CmdUnSubAllType \<Rightarrow> decode_as (dec_unsubscribe_response pb) (rs_body response)
      | CmdUnSubOrderBook \<Rightarrow> decode_as (dec_unsubscribe_response pb) (rs_body response)
      | CmdUnSubDepth \<Rightarrow> decode_as (dec_unsubscribe_response pb) (rs_body response)
      | CmdUnSubBrokers \<Rightarrow> decode_as (dec_unsubscribe_response pb) (rs_body response)
      | c \<Rightarrow> Inl (UnsupportedCommand c))"

definition converts :: "convert_error + 'm \<Rightarrow> bool" where
  "converts r = (case r of Inl (UnsupportedCommand _) \<Rightarrow> False | _ \<Rightarrow> True)"

lemma converts_simps [simp]:
  "converts (decode_as dec body)" "\<not> converts (Inl (UnsupportedCommand c))"
  by (simp_all add: converts_def decode_as_def split: option.split)

lemma converts_by:
  "converts (try_from_subscribe pb r) \<longleftrightarrow>
     rs_command r \<in> {CmdSubAllType, CmdSubOrderBook, CmdSubTrades, CmdSubBrokers, CmdSubDepth,
                     CmdSubMarketInfo}"
  "converts (try_from_auth pb r) \<longleftrightarrow> rs_command r = Auth"
  "converts (try_from_unsubscribe pb r) \<longleftrightarrow>
     rs_command r \<in> {CmdUnSubAllType, CmdUnSubOrderBook, CmdUnSubDepth, CmdUnSubBrokers}"
  by (cases "rs_command r";
      simp add: try_from_subscribe_def try_from_auth_def try_from_unsubscribe_def)+

section \<open>Quotations\<close>

datatype ('t, 'p, 'd, 'b, 'k, 'o) quotation =
  Q_Trade 't | Q_Price 'p | Q_Depth 'd | Q_Broker 'b | Q_KLine 'k | Q_OrderBook 'o

record ('t, 'p, 'd, 'b, 'k, 'o) quotation_codecs =
  enc_trade :: "'t \<Rightarrow> bytes"
  dec_trade :: "bytes \<Rightarrow> 't option"
  enc_snapshot :: "'p \<Rightarrow> bytes"
  dec_snapshot :: "bytes \<Rightarrow> 'p option"
  enc_depths :: "'d \<Rightarrow> bytes"
  dec_depths :: "bytes \<Rightarrow> 'd option"
  enc_brokers :: "'b \<Rightarrow> bytes"
  dec_brokers :: "bytes \<Rightarrow> 'b option"
  enc_kline :: "'k \<Rightarrow> bytes"
  dec_kline :: "bytes \<Rightarrow> 'k option"
  enc_order_book :: "'o \<Rightarrow> bytes"
  dec_order_book :: "bytes \<Rightarrow> 'o option"

fun quotation_msg_type :: "('t, 'p, 'd, 'b, 'k, 'o) quotation \<Rightarrow> msg_type" where
  "quotation_msg_type (Q_Trade _) = Msg_Trade"
| "quotation_msg_type (Q_Price _) = Msg_Snapshot"
| "quotation_msg_type (Q_Depth _) = Msg_Depths"
| "quotation_msg_type (Q_Broker _) = Msg_Brokers"
| "quotation_msg_type (Q_KLine _) = Msg_Kline"
| "quotation_msg_type (Q_OrderBook _) = Msg_OrderBook"

fun encode_quotation ::
    "('t, 'p, 'd, 'b, 'k, 'o) quotation_codecs \<Rightarrow> ('t, 'p, 'd, 'b, 'k, 'o) quotation \<Rightarrow> bytes" where
  "encode_quotation cs (Q_Trade m) = enc_trade cs m"
| "encode_quotation cs (Q_Price m) = enc_snapshot cs m"
| "encode_quotation cs (Q_Depth m) = enc_depths cs m"
| "encode_quotation cs (Q_Broker m) = enc_brokers cs m"
| "encode_quotation cs (Q_KLine m) = enc_kline cs m"
| "encode_quotation cs (Q_OrderBook m) = enc_order_book cs m"

fun parse_quotation ::
    "('t, 'p, 'd, 'b, 'k, 'o) quotation_codecs \<Rightarrow> msg_type \<Rightarrow> bytes \<Rightarrow>
     ('t, 'p, 'd, 'b, 'k, 'o) quotation option" where
  "parse_quotation cs Msg_Unknown body = None"
| "parse_quotation cs Msg_Snapshot body = map_option Q_Price (dec_snapshot cs body)"
| "parse_quotation cs Msg_Trade body = map_option Q_Trade (dec_trade cs body)"
| "parse_quotation cs Msg_Depths body = map_option Q_Depth (dec_depths cs body)"
| "parse_quotation cs Msg_Brokers body = map_option Q_Broker (dec_brokers cs body)"
| "parse_quotation cs Msg_MarketInfo body = None"
| "parse_quotation cs Msg_OrderBook body = map_option Q_OrderBook (dec_order_book cs body)"
| "parse_quotation cs Msg_Kline body = map_option Q_KLine (dec_kline cs body)"

definition codecs_invert :: "('t, 'p, 'd, 'b, 'k, 'o) quotation_codecs \<Rightarrow> bool" where
  "codecs_invert cs \<longleftrightarrow>
     (\<forall>m. dec_trade cs (enc_trade cs m) = Some m) \<and>
     (\<forall>m. dec_snapshot cs (enc_snapshot cs m) = Some m) \<and>
     (\<forall>m. dec_depths cs (enc_depths cs m) = Some m) \<and>
     (\<forall>m. dec_brokers cs (enc_brokers cs m) = Some m) \<and>
     (\<forall>m. dec_kline cs (enc_kline cs m) = Some m) \<and>
     (\<forall>m. dec_order_book cs (enc_order_book cs m) = Some m)"

text \<open>Codecs that store a message as itself, for the concrete instances.\<close>

definition plain_codecs :: "(bytes, bytes, bytes, bytes, bytes, bytes) quotation_codecs" where
  "plain_codecs = \<lparr>enc_trade = id, dec_trade = Some, enc_snapshot = id, dec_snapshot = Some,
     enc_depths = id, dec_depths = Some, enc_brokers = id, dec_brokers = Some,
     enc_kline = id, dec_kline = Some, enc_order_book = id, dec_order_book = Some\<rparr>"

lemma plain_codecs_invert: "codecs_invert plain_codecs"
  by (simp add: codecs_invert_def plain_codecs_def)

section \<open>Properties\<close>

text \<open>Each response converts to at most one of the three typed control messages, chosen by
  its command alone; a response to an application command (discriminant 4 or more) converts to
  the subscribe or to the unsubscribe message, and heartbeat, close and reconnect to none.\<close>

lemma response_conversion_partition:
  "(if converts (try_from_subscribe pb r) then 1 else 0)
   + (if converts (try_from_auth pb r) then 1 else 0)
   + (if converts (try_from_unsubscribe pb r) then 1 else 0)
   = (if rs_command r \<in> {Heartbeat, Close, Reconnect} then 0 else 1 :: nat)"
  by (cases "rs_command r"; simp add: converts_by)

text \<open>A quotation survives its encoding: parsing the encoded payload under the message type
  of the quotation gives the quotation back, when the generated codecs do so message by
  message.\<close>

lemma quotation_roundtrip:
  assumes "codecs_invert cs"
  shows "parse_quotation cs (quotation_msg_type q) (encode_quotation cs q) = Some q"
  using assms by (cases q) (simp_all add: codecs_invert_def)

lemma quotation_roundtrip_witness:
  "parse_quotation plain_codecs Msg_Kline [1, 2] = Some (Q_KLine [1, 2])"
  using quotation_roundtrip[OF plain_codecs_invert, of "Q_KLine [1, 2]"]
  by (simp add: plain_codecs_def)

text \<open>Parsing respects the message type: whatever the payload, a parsed quotation has the
  message type it was parsed under, and nothing is parsed under the types unknown and market
  info, which no quotation has.\<close>

lemma parse_quotation_type:
  "(\<forall>q. parse_quotation cs mt body = Some q \<longrightarrow> quotation_msg_type q = mt)
   \<and> parse_quotation cs Msg_Unknown body = None \<and> parse_quotation cs Msg_MarketInfo body = None
   \<and> quotation_msg_type q' \<notin> {Msg_Unknown, Msg_MarketInfo}"
  by (cases mt; cases q') auto

lemma parse_quotation_type_witness:
  "quotation_msg_type (Q_Trade [5] :: (bytes, bytes, bytes, bytes, bytes, bytes) quotation) = Msg_Trade"
  using parse_quotation_type[of plain_codecs Msg_Trade "[5]" "Q_Trade [5]"]
  by (simp add: plain_codecs_def)

text \<open>C40: Every packet constructor builds a packet the wire format can carry, as long as the
  body stays below the 24-bit length field: the request id is trimmed to 24 bits, the length
  field is the length of the body, and the packet is a header longer than its body.  A response
  echoes the command and the id of its request.\<close>

theorem constructors_wf:
  assumes "length body < 2 ^ 24" and "wf_packet (Request req)"
    and "length (enc_auth_request pb \<lparr>ar_auth_info =
           Some \<lparr>user_name = u, password = pw, client_name = cn\<rparr>\<rparr>) < 2 ^ 24"
    and "length (enc_subscribe_request pb
           \<lparr>sub_all = a, counter_ids = [], span_index = span\<rparr>) < 2 ^ 24"
    and "length (enc_heartbeat pb \<lparr>hb_timestamp = now\<rparr>) < 2 ^ 24"
  shows "wf_packet (new_request cmd i body) \<and> wf_packet (new_response_from req status body)
    \<and> wf_packet (new_auth pb i u pw cn) \<and> wf_packet (new_subscribe pb cmd i a span)
    \<and> wf_packet (new_heartbeat pb now i) \<and> wf_packet (new_heartbeat_response req)
    \<and> unat (get_request_id (new_request cmd i body)) = unat i mod 2 ^ 24
    \<and> get_request_id (new_response_from req status body) = get_request_id (Request req)
    \<and> total_bytes (new_request cmd i body) = length body + 8"
  using assms request_id_trim_bound[of i] request_id_trim_mod[of i]
  by (simp add: new_request_def new_response_from_def new_auth_def new_subscribe_def
      new_heartbeat_def new_heartbeat_response_def wf_body_len_u32 unat_len_u32
      REQUEST_HEADER_SIZE_def Let_def)

definition plain_prost :: prost where
  "plain_prost = \<lparr>enc_auth_request = \<lambda>_. [1], dec_auth_request = \<lambda>_. None,
     enc_heartbeat = \<lambda>_. [2], dec_heartbeat = \<lambda>_. None, enc_subscribe_request = \<lambda>_. [3],
     dec_link_error = \<lambda>_. None, dec_subscribe_response = \<lambda>_. None,
     dec_unsubscribe_response = \<lambda>_. None, dec_auth_response = \<lambda>_. None\<rparr>"

theorem constructors_wf_witness:
  "wf_packet (new_request CmdSubDepth 0x01000007 [1, 2])
   \<and> unat (get_request_id (new_request CmdSubDepth 0x01000007 [1, 2])) = 7"
  using constructors_wf[of "[1, 2]" "\<lparr>rq_reserved = 0, rq_command = Heartbeat, rq_id = 1,
      rq_timeout = 5, rq_body_len = 0, rq_body = []\<rparr>" plain_prost "''u''" "''p''" "''c''"
      True 0 0 CmdSubDepth "0x01000007" BadRequest]
  by (simp add: plain_prost_def wf_body_def)

end
