(* ===== verification/Link_Client.thy ===== *)
theory Link_Client
  imports Messages Link_Config
begin

text \<open>
  \<open>link/src/client.rs\<close>.  The client is three tasks around shared state: the callers of
  \<open>send_request\<close> and its siblings, the main task with its connection loop (\<open>'conn\<close>) and data
  loop (\<open>'data\<close>), and the dispatch task that hands packets to the consumer.  The record holds
  the shared state and the main task's local variables; each task's turn is a function on it,
  and a run is any interleaving of turns.

  A one-shot reply channel is an abstract waiter \<open>'w\<close>.  What the client does to its
  environment (callbacks and replies) is appended to \<open>actions\<close>.  The transport's connect task
  is the other end of the inner channels; its result is an event.  An awaited send is taken
  at the moment it completes; a wait is not modelled.  Instants are nanoseconds.
\<close>

section \<open>State\<close>

datatype client_error =
  Transport_Failed | Auth_Timed_Out | Heartbeat_Timed_Out | Heartbeat_Send_Failed
| Heartbeat_Decode_Failed | Auth_Rejected link_error | Auth_Forward_Failed
| Subscribe_Send_Failed | Process_Chan_Closed | Response_Chan_Closed | Random_Cid_Failed
| Exit_Requested string

datatype client_conn_event = Conn_Error client_error | Disconnected_Forever client_error

datatype client_signal = Exit_Client string

datatype 'w client_action =
  On_Request request | On_Response response | On_Push push | On_Connected
| Reply 'w response | On_Conn_Event client_conn_event

record 'w client_state =
  request_id_gen :: u32
  request_queue :: "(packet \<times> 'w option) list"
  requests :: "u32 \<rightharpoonup> 'w"
  is_authed :: bool
  conn_created_at :: nat
  last_pong_at :: nat
  auth_packet :: "packet option"
  inner_request_tx :: "packet chan"
  process_queue :: "packet list"
  process_open :: bool
  actions :: "'w client_action list"

definition act :: "'w client_action \<Rightarrow> 'w client_state \<Rightarrow> 'w client_state" where
  "act a s = s\<lparr>actions := actions s @ [a]\<rparr>"

definition client_new :: "packet chan \<Rightarrow> 'w client_state" where
  "client_new tx = \<lparr>request_id_gen = 1, request_queue = [], requests = Map.empty,
     is_authed = False, conn_created_at = 0, last_pong_at = 0, auth_packet = None,
     inner_request_tx = tx, process_queue = [], process_open = True, actions = []\<rparr>"

text \<open>\<open>fetch_add(1)\<close> wraps.\<close>

definition next_id :: "'w client_state \<Rightarrow> u32 \<times> 'w client_state" where
  "next_id s = (request_id_gen s, s\<lparr>request_id_gen := request_id_gen s + 1\<rparr>)"

section \<open>The callers\<close>

text \<open>
  \<open>send_request\<close> up to its await: refuses the commands the client sends itself, draws an id
  and queues the packet with its reply channel.
\<close>

definition api_request :: "command \<Rightarrow> bytes \<Rightarrow> 'w \<Rightarrow> 'w client_state \<Rightarrow> 'w client_state" where
  "api_request cmd body w s =
     (if cmd = Heartbeat \<or> cmd = Auth then s
      else let (req_id, s') = next_id s in
        s'\<lparr>request_queue := request_queue s' @ [(new_request cmd req_id body, Some w)]\<rparr>)"

definition api_push :: "push \<Rightarrow> 'w client_state \<Rightarrow> 'w client_state" where
  "api_push p s = s\<lparr>request_queue := request_queue s @ [(Push p, None)]\<rparr>"

definition api_response :: "response \<Rightarrow> 'w client_state \<Rightarrow> 'w client_state" where
  "api_response r s = s\<lparr>request_queue := request_queue s @ [(Response r, None)]\<rparr>"

text \<open>
  What \<open>send_request\<close> returns.  \<open>send\<close> is the outcome of handing the packet over: a timeout,
  or done (a closed channel is ignored, but drops the reply channel); \<open>answer\<close> is the outcome
  of the wait: a timeout, a dropped reply channel or a response.
\<close>

datatype send_outcome = Send_Timed_Out | Send_Done
datatype answer_outcome = Answer_Timed_Out | Answer_Dropped | Answered response

datatype 'e request_error =
  Unsupported_Command command | Not_Linked | Request_Send_Timeout | Response_Timeout
| Reply_Channel_Dropped | Link_Error_Response link_error | Conversion_Failed 'e

definition send_request_result ::
    "prost \<Rightarrow> (response \<Rightarrow> 'e + 'resp) \<Rightarrow> command \<Rightarrow> bool \<Rightarrow> send_outcome \<Rightarrow> answer_outcome
      \<Rightarrow> 'e request_error + 'resp" where
  "send_request_result pb try_from cmd linked send answer =
     (if cmd = Heartbeat \<or> cmd = Auth then Inl (Unsupported_Command cmd)
      else if \<not> linked then Inl Not_Linked
      else case send of
        Send_Timed_Out \<Rightarrow> Inl Request_Send_Timeout
      | Send_Done \<Rightarrow>
          (case answer of
             Answer_Timed_Out \<Rightarrow> Inl Response_Timeout
           | Answer_Dropped \<Rightarrow> Inl Reply_Channel_Dropped
           | Answered resp \<Rightarrow>
               (case (if rs_status resp \<noteq> Success then dec_link_error pb (rs_body resp) else None) of
                  Some link_err \<Rightarrow> Inl (Link_Error_Response link_err)
                | None \<Rightarrow>
                    (case try_from resp of
                       Inl e \<Rightarrow> Inl (Conversion_Failed e)
                     | Inr x \<Rightarrow> Inr x))))"

section \<open>The dispatch task\<close>

definition dispatch_response :: "response \<Rightarrow> 'w client_state \<Rightarrow> 'w client_state" where
  "dispatch_response response s =
     (case requests s (rs_id response) of
        Some response_tx \<Rightarrow>
          act (Reply response_tx response) (s\<lparr>requests := (requests s)(rs_id response := None)\<rparr>)
      | None \<Rightarrow>
          if rs_command response = Auth \<and> rs_status response = Success then act On_Connected s
          else act (On_Response response) s)"

definition dispatch :: "'w client_state \<Rightarrow> 'w client_state" where
  "dispatch s =
     (case process_queue s of
        [] \<Rightarrow> s
      | p # rest \<Rightarrow>
          let s' = s\<lparr>process_queue := rest\<rparr> in
          (case p of
             Request request \<Rightarrow> act (On_Request request) s'
           | Response response \<Rightarrow> dispatch_response response s'
           | Push push \<Rightarrow> act (On_Push push) s'))"

section \<open>The data loop\<close>

datatype data_exit = Link_Done | Data_Error client_error

datatype data_event =
  Ctrl_C | Conn_Task_Ok | Conn_Task_Err | Ping_Tick nat i64 | Signal client_signal
| Take_Request bool | Recv_Packet nat i64 packet | Recv_Closed

type_synonym 'w client_ctl = "(data_exit fault, 'w client_state) ctl"

abbreviation data_break :: "client_error \<Rightarrow> 'w client_state \<Rightarrow> 'w client_ctl" where
  "data_break e s \<equiv> Break (Err (Data_Error e)) s"

definition ping_tick ::
    "link_client_config \<Rightarrow> prost \<Rightarrow> nat \<Rightarrow> i64 \<Rightarrow> 'w client_state \<Rightarrow> 'w client_ctl" where
  "ping_tick conf pb now utc s =
     (if \<not> is_authed s \<and> now - conn_created_at s > auth_timeout (lc_healthy_config conf)
      then data_break Auth_Timed_Out s
      else if is_authed s \<and> now - last_pong_at s > heartbeat_timeout (lc_healthy_config conf)
      then data_break Heartbeat_Timed_Out s
      else let (i, s') = next_id s in
        (case chan_send (new_heartbeat pb utc i) (inner_request_tx s') of
           None \<Rightarrow> data_break Heartbeat_Send_Failed s'
         | Some tx \<Rightarrow> Continue (s'\<lparr>inner_request_tx := tx\<rparr>)))"

definition take_request :: "bool \<Rightarrow> 'w client_state \<Rightarrow> 'w client_ctl" where
  "take_request locked_in_time s =
     (case request_queue s of
        [] \<Rightarrow> Continue s
      | (packet, response_tx) # rest \<Rightarrow>
          let s' = s\<lparr>request_queue := rest\<rparr> in
          (case chan_send packet (inner_request_tx s') of
             None \<Rightarrow> Continue s'
           | Some tx \<Rightarrow>
               let s'' = s'\<lparr>inner_request_tx := tx\<rparr> in
               Continue (case (packet, response_tx) of
                  (Request request, Some w) \<Rightarrow>
                    if locked_in_time then s''\<lparr>requests := (requests s'')(rq_id request \<mapsto> w)\<rparr>
                    else s''
                | _ \<Rightarrow> s'')))"

text \<open>The subtraction of two clock readings overflows in a debug build.\<close>

definition i64_sub :: "i64 \<Rightarrow> i64 \<Rightarrow> ('e, i64) res" where
  "i64_sub a b =
     (if - (2 ^ 63) \<le> sint a - sint b \<and> sint a - sint b < 2 ^ 63 then Inr (a - b) else Inl Panic)"

fun subscribe_packets :: "prost \<Rightarrow> subscribe list \<Rightarrow> u32 \<Rightarrow> packet list" where
  "subscribe_packets pb [] i = []"
| "subscribe_packets pb (sub # subs) i =
     new_subscribe pb (sub_cmd sub) i (sub_all_flag sub) (sub_span_index sub)
       # subscribe_packets pb subs (i + 1)"

definition try_process :: "link_client_config \<Rightarrow> packet \<Rightarrow> 'w client_state \<Rightarrow> 'w client_ctl" where
  "try_process conf packet s =
     (if \<not> process_open s then data_break Process_Chan_Closed s
      else if process_chan_size (lc_channel_config conf) \<le> length (process_queue s) then Continue s
      else Continue (s\<lparr>process_queue := process_queue s @ [packet]\<rparr>))"

definition on_heartbeat_response ::
    "prost \<Rightarrow> i64 \<Rightarrow> response \<Rightarrow> 'w client_state \<Rightarrow> 'w client_ctl" where
  "on_heartbeat_response pb utc response s =
     (case dec_heartbeat pb (rs_body response) of
        None \<Rightarrow> data_break Heartbeat_Decode_Failed s
      | Some hb \<Rightarrow>
          (case (i64_sub utc (hb_timestamp hb) :: (unit, i64) res) of
             Inl _ \<Rightarrow> Break Panic s
           | Inr cost \<Rightarrow> Continue s))"

definition on_auth_response ::
    "link_client_config \<Rightarrow> prost \<Rightarrow> response \<Rightarrow> 'w client_state \<Rightarrow> 'w client_ctl" where
  "on_auth_response conf pb response s =
     (if rs_status response \<noteq> Success then
        data_break (Auth_Rejected (case dec_link_error pb (rs_body response) of
            Some e \<Rightarrow> e | None \<Rightarrow> \<lparr>le_code = 0, le_msg = ''unknown error''\<rparr>)) s
      else let s = s\<lparr>is_authed := True\<rparr> in
        if \<not> process_open s then data_break Auth_Forward_Failed s
        else let s = s\<lparr>process_queue := process_queue s @ [Response response]\<rparr>;
            subs = lc_subscribes conf;
            sub_packets = subscribe_packets pb subs (request_id_gen s);
            s = s\<lparr>request_id_gen := request_id_gen s + word_of_nat (length subs)\<rparr>;
            (ok, tx) = chan_send_all sub_packets (inner_request_tx s);
            s = s\<lparr>inner_request_tx := tx\<rparr>
          in if ok then Continue s else data_break Subscribe_Send_Failed s)"

definition recv_packet ::
    "link_client_config \<Rightarrow> prost \<Rightarrow> nat \<Rightarrow> i64 \<Rightarrow> packet \<Rightarrow> 'w client_state \<Rightarrow> 'w client_ctl" where
  "recv_packet conf pb now utc packet s =
     (let s = s\<lparr>last_pong_at := now\<rparr> in
      case packet of
        Response response \<Rightarrow>
          if rs_command response = Heartbeat then on_heartbeat_response pb utc response s
          else if rs_command response = Auth then on_auth_response conf pb response s
          else try_process conf packet s
      | _ \<Rightarrow> try_process conf packet s)"

fun data_step ::
    "link_client_config \<Rightarrow> prost \<Rightarrow> data_event \<Rightarrow> 'w client_state \<Rightarrow> 'w client_ctl" where
  "data_step conf pb Ctrl_C s = Break (Err Link_Done) s"
| "data_step conf pb Conn_Task_Ok s = Break (Err Link_Done) s"
| "data_step conf pb Conn_Task_Err s = data_break Transport_Failed s"
| "data_step conf pb (Ping_Tick now utc) s = ping_tick conf pb now utc s"
| "data_step conf pb (Signal (Exit_Client msg)) s =
     Break (Err Link_Done) (act (On_Conn_Event (Disconnected_Forever (Exit_Requested msg))) s)"
| "data_step conf pb (Take_Request locked_in_time) s = take_request locked_in_time s"
| "data_step conf pb (Recv_Packet now utc packet) s = recv_packet conf pb now utc packet s"
| "data_step conf pb Recv_Closed s = data_break Response_Chan_Closed s"

section \<open>Interleaving and the connection loop\<close>

datatype 'w client_event =
  Main data_event | Dispatch | Api_Request command bytes 'w | Api_Push push | Api_Response response

text \<open>The turns of the other tasks, which also run while no connection is up.\<close>

fun background_step :: "'w client_event \<Rightarrow> 'w client_state \<Rightarrow> 'w client_state" where
  "background_step (Main ev) s = s"
| "background_step Dispatch s = dispatch s"
| "background_step (Api_Request cmd body w) s = api_request cmd body w s"
| "background_step (Api_Push p) s = api_push p s"
| "background_step (Api_Response r) s = api_response r s"

fun client_step ::
    "link_client_config \<Rightarrow> prost \<Rightarrow> 'w client_event \<Rightarrow> 'w client_state \<Rightarrow> 'w client_ctl" where
  "client_step conf pb (Main ev) s = data_step conf pb ev s"
| "client_step conf pb ev s = Continue (background_step ev s)"

text \<open>
  One session is one turn of the connection loop: whether an id for the connection could be
  drawn, when it starts, the sender of its inner channel, the turns of the other tasks before
  it starts, and the events until it ends.
\<close>

record 'w session =
  se_cid_ok :: bool
  se_start :: nat
  se_chan :: "packet chan"
  se_before :: "'w client_event list"
  se_events :: "'w client_event list"

definition start_connection ::
    "link_client_config \<Rightarrow> prost \<Rightarrow> 'w session \<Rightarrow> 'w client_state \<Rightarrow> 'w client_state" where
  "start_connection conf pb se s =
     (let (i, s) = next_id s in
      s\<lparr>auth_packet := Some (new_auth pb i (lc_username conf) (lc_password conf) (lc_client_name conf)),
        inner_request_tx := se_chan se, is_authed := False, conn_created_at := se_start se,
        last_pong_at := se_start se\<rparr>)"

definition data_loop ::
    "link_client_config \<Rightarrow> prost \<Rightarrow> 'w session \<Rightarrow> 'w client_state \<Rightarrow> 'w client_ctl" where
  "data_loop conf pb se s =
     run_loop (client_step conf pb) (se_events se)
       (start_connection conf pb se (fold background_step (se_before se) s))"

datatype link_outcome = Link_Running | Link_Ok | Link_Err client_error | Link_Panic

text \<open>
  After a failed data loop: the connect task is aborted, the request ids start again, and the
  failure is counted.  \<open>Inl\<close> ends the connection loop, \<open>Inr\<close> goes on with another attempt.
\<close>

definition after_data_error ::
    "link_client_config \<Rightarrow> u32 \<Rightarrow> client_error \<Rightarrow> 'w client_state \<Rightarrow> u32 \<times> 'w client_state + u32 \<times> 'w client_state" where
  "after_data_error conf retries e s =
     (let s = s\<lparr>request_id_gen := 1\<rparr>;
          retries = retries + 1;
          max_retry_times = retry_times (lc_healthy_config conf) in
      if 0 < max_retry_times \<and> max_retry_times \<le> retries
      then Inl (retries, act (On_Conn_Event (Disconnected_Forever e)) s)
      else Inr (retries, act (On_Conn_Event (Conn_Error e)) s))"

declare after_data_error_def [simp]

fun link_task ::
    "link_client_config \<Rightarrow> prost \<Rightarrow> 'w session list \<Rightarrow> u32 \<Rightarrow> 'w client_state
      \<Rightarrow> link_outcome \<times> u32 \<times> 'w client_state" where
  "link_task conf pb [] retries s = (Link_Running, retries, s)"
| "link_task conf pb (se # ses) retries s =
     (if \<not> se_cid_ok se
      then (Link_Err Random_Cid_Failed, retries,
            act (On_Conn_Event (Disconnected_Forever Random_Cid_Failed)) s)
      else (case data_loop conf pb se s of
          Continue s' \<Rightarrow> (Link_Running, retries, s')
        | Break Panic s' \<Rightarrow> (Link_Panic, retries, s')
        | Break (Err Link_Done) s' \<Rightarrow> (Link_Ok, retries, s')
        | Break (Err (Data_Error e)) s' \<Rightarrow>
            (case after_data_error conf retries e s' of
               Inl (retries, s') \<Rightarrow> (Link_Err e, retries, s')
             | Inr (retries, s') \<Rightarrow> link_task conf pb ses retries s')))"

end
