(* ===== verification/Client_Theorems.thy ===== *)
theory Client_Theorems
  imports Link_Client Event_Loops
begin

text \<open>
  The properties of the client: which reply reaches which caller, when a silent peer is
  noticed, what is subscribed after authentication, how often a connection is tried, and what
  \<open>send_request\<close> returns.
\<close>

section \<open>Replies and their requests\<close>

text \<open>The packets that callers of \<open>send_request\<close> queue in the course of a run, with their waiters.\<close>

fun issues :: "'w client_event \<Rightarrow> 'w client_state \<Rightarrow> ('w \<times> packet) list" where
  "issues (Api_Request cmd body w) s =
     (if cmd = Heartbeat \<or> cmd = Auth then [] else [(w, new_request cmd (request_id_gen s) body)])"
| "issues _ s = []"

fun issued ::
    "link_client_config \<Rightarrow> prost \<Rightarrow> 'w client_event list \<Rightarrow> 'w client_state \<Rightarrow> ('w \<times> packet) list" where
  "issued conf pb [] s = []"
| "issued conf pb (ev # evs) s =
     issues ev s @ (case client_step conf pb ev s of Continue s' \<Rightarrow> issued conf pb evs s' | Break e s' \<Rightarrow> [])"

definition correlated :: "('w \<times> packet) set \<Rightarrow> 'w client_state \<Rightarrow> bool" where
  "correlated I s \<longleftrightarrow>
     (\<forall>p w. (p, Some w) \<in> set (request_queue s) \<longrightarrow> (w, p) \<in> I)
     \<and> (\<forall>k w. requests s k = Some w \<longrightarrow> (\<exists>p. (w, p) \<in> I \<and> get_request_id p = k))
     \<and> (\<forall>w r. Reply w r \<in> set (actions s) \<longrightarrow> (\<exists>p. (w, p) \<in> I \<and> get_request_id p = rs_id r))"

lemma correlated_mono: "correlated I s \<Longrightarrow> I \<subseteq> J \<Longrightarrow> correlated J s"
  by (fastforce simp: correlated_def)

lemma correlated_frame:
  "correlated I s \<Longrightarrow> set (request_queue t) \<subseteq> set (request_queue s) \<Longrightarrow> requests t = requests s \<Longrightarrow>
     actions t = actions s \<Longrightarrow> correlated I t"
  by (auto simp: correlated_def)

lemma correlated_act: "correlated I s \<Longrightarrow> (\<And>w r. a \<noteq> Reply w r) \<Longrightarrow> correlated I (act a s)"
  by (fastforce simp: correlated_def act_def)

lemma dispatch_correlated: "correlated I s \<Longrightarrow> correlated I (dispatch s)"
  by (auto simp: dispatch_def dispatch_response_def correlated_def act_def Let_def
      split: list.splits packet.splits option.splits if_splits)

lemma take_request_correlated:
  "correlated I s \<Longrightarrow> correlated I (ctl_state (take_request t s))"
  by (fastforce simp: take_request_def correlated_def Let_def
      split: list.splits option.splits packet.splits if_splits)

lemma api_request_correlated:
  assumes "correlated I s"
  shows "correlated (I \<union> set (issues (Api_Request cmd body w) s)) (api_request cmd body w s)"
proof (cases "cmd = Heartbeat \<or> cmd = Auth")
  case False
  have "correlated (insert (w, new_request cmd (request_id_gen s) body) I) s"
    using correlated_mono[OF assms] by blast
  then show ?thesis using False by (auto simp: api_request_def next_id_def correlated_def)
qed (use assms in \<open>auto simp: api_request_def\<close>)

lemma background_correlated:
  "correlated I s \<Longrightarrow> correlated (I \<union> set (issues ev s)) (background_step ev s)"
proof (cases ev)
  case (Api_Request cmd body w)
  then show "correlated I s \<Longrightarrow> ?thesis" using api_request_correlated by fastforce
next
  case Dispatch
  then show "correlated I s \<Longrightarrow> ?thesis" by (simp add: dispatch_correlated)
qed (auto simp: api_push_def api_response_def correlated_def)

lemma data_step_frame:
  assumes "\<nexists>t. ev = Take_Request t"
  shows "request_queue (ctl_state (data_step conf pb ev s)) = request_queue s
    \<and> requests (ctl_state (data_step conf pb ev s)) = requests s
    \<and> (\<exists>as. actions (ctl_state (data_step conf pb ev s)) = actions s @ as \<and> (\<forall>w r. Reply w r \<notin> set as))"
  using assms
  by (cases "(conf, pb, ev, s)" rule: data_step.cases)
    (auto simp: ping_tick_def recv_packet_def on_heartbeat_response_def on_auth_response_def
      try_process_def act_def next_id_def Let_def
      split: option.splits packet.splits if_splits prod.splits sum.splits)

lemma client_step_correlated:
  assumes "correlated I s"
  shows "correlated (I \<union> set (issues ev s)) (ctl_state (client_step conf pb ev s))"
proof (cases ev)
  case (Main d)
  show ?thesis
  proof (cases "\<exists>t. d = Take_Request t")
    case True
    then show ?thesis using assms Main take_request_correlated by auto
  next
    case False
    then show ?thesis
      using assms Main data_step_frame[OF False, of conf pb s]
      by (fastforce simp: correlated_def)
  qed
qed (use background_correlated[OF assms, of ev] in simp_all)

lemma run_correlated:
  "correlated I s \<Longrightarrow>
     correlated (I \<union> set (issued conf pb evs s)) (ctl_state (run_loop (client_step conf pb) evs s))"
proof (induction evs arbitrary: I s)
  case (Cons ev evs)
  note step = client_step_correlated[OF Cons.prems, of ev conf pb]
  show ?case
  proof (cases "client_step conf pb ev s")
    case (Continue t)
    then show ?thesis using Cons.IH[of "I \<union> set (issues ev s)" t] step by (simp add: Un_assoc)
  qed (use step in simp)
qed simp

section \<open>At most one reply\<close>

definition queued_waiters :: "'w client_state \<Rightarrow> 'w list" where
  "queued_waiters s = List.map_filter snd (request_queue s)"

definition replied :: "'w client_state \<Rightarrow> 'w list" where
  "replied s = List.map_filter (\<lambda>a. case a of Reply w r \<Rightarrow> Some w | _ \<Rightarrow> None) (actions s)"

text \<open>
  Every waiter is in one place only: in the queue of requests, in the map of pending requests
  under one id, or among those replied to.
\<close>

definition placed_once :: "'w set \<Rightarrow> 'w client_state \<Rightarrow> bool" where
  "placed_once W s \<longleftrightarrow> distinct (queued_waiters s @ replied s)
     \<and> ran (requests s) \<inter> set (queued_waiters s @ replied s) = {}
     \<and> inj_on (requests s) (dom (requests s))
     \<and> ran (requests s) \<union> set (queued_waiters s @ replied s) \<subseteq> W"

lemma map_filter_append: "List.map_filter f (xs @ ys) = List.map_filter f xs @ List.map_filter f ys"
  by (simp add: List.map_filter_def)

lemmas waiter_simps = queued_waiters_def replied_def map_filter_append List.map_filter_simps

lemma placed_once_frame:
  assumes "placed_once W s" and "queued_waiters t = queued_waiters s" and "requests t = requests s"
    and "actions t = actions s @ as" and "\<forall>w r. Reply w r \<notin> set as"
  shows "placed_once W t"
proof -
  have "List.map_filter (\<lambda>a. case a of Reply w r \<Rightarrow> Some w | _ \<Rightarrow> None) as = []"
    using assms(5) by (induction as) (auto simp: List.map_filter_simps split: client_action.split)
  then have "replied t = replied s" using assms(4) by (simp add: replied_def map_filter_append)
  with assms show ?thesis by (simp add: placed_once_def)
qed

lemma inj_on_delete: "inj_on m (dom m) \<Longrightarrow> inj_on (m(k := None)) (dom (m(k := None)))"
  by (auto simp: inj_on_def dom_def)

lemma inj_on_update:
  assumes "inj_on m (dom m)" and "w \<notin> ran m"
  shows "inj_on (m(k \<mapsto> w)) (dom (m(k \<mapsto> w)))"
  using assms by (auto simp: inj_on_def dom_def ran_def)

lemma ran_delete:
  assumes "inj_on m (dom m)" and "m k = Some w"
  shows "ran (m(k := None)) = ran m - {w}"
proof (rule set_eqI)
  fix v
  have "j = k" if "m j = Some w" for j using inj_onD[OF assms(1), of j k] that assms(2) by auto
  then have "(\<exists>j. j \<noteq> k \<and> m j = Some v) \<longleftrightarrow> (\<exists>j. m j = Some v) \<and> v \<noteq> w"
    using assms(2) by (metis option.inject)
  then show "v \<in> ran (m(k := None)) \<longleftrightarrow> v \<in> ran m - {w}" by (auto simp: ran_def)
qed

lemma ran_update_subset: "ran (m(k \<mapsto> w)) \<subseteq> insert w (ran m)"
  by (auto simp: ran_def)

lemma dispatch_placed:
  assumes "placed_once W s"
  shows "placed_once W (dispatch s)"
proof -
  have reply: "placed_once W (dispatch_response r t)"
    if t: "placed_once W t" for r and t :: "'a client_state"
  proof (cases "requests t (rs_id r)")
    case None
    then show ?thesis
      using placed_once_frame[OF t]
      by (auto simp: dispatch_response_def act_def queued_waiters_def)
  next
    case (Some w)
    let ?t = "act (Reply w r) (t\<lparr>requests := (requests t)(rs_id r := None)\<rparr>)"
    have "queued_waiters ?t = queued_waiters t" "replied ?t = replied t @ [w]"
      by (simp_all add: act_def waiter_simps)
    moreover have "w \<in> ran (requests t)" using Some by (auto simp: ran_def)
    ultimately have "placed_once W ?t"
      using t inj_on_delete[of "requests t"] ran_delete[of "requests t", OF _ Some]
      by (auto simp: placed_once_def act_def)
    then show ?thesis using Some by (simp add: dispatch_response_def)
  qed
  show ?thesis
  proof (cases "process_queue s")
    case (Cons p rest)
    let ?t = "s\<lparr>process_queue := rest\<rparr>"
    have t: "placed_once W ?t"
      using placed_once_frame[OF assms, of ?t "[]"] by (simp add: queued_waiters_def)
    show ?thesis
    proof (cases p)
      case (Response r)
      then show ?thesis using reply[OF t] Cons by (simp add: dispatch_def Let_def)
    qed (use Cons placed_once_frame[OF t] in
        \<open>auto simp: dispatch_def act_def queued_waiters_def\<close>)
  qed (simp add: dispatch_def assms)
qed

lemma take_request_placed:
  assumes "placed_once W s"
  shows "placed_once W (ctl_state (take_request t s))"
proof (cases "request_queue s")
  case (Cons pw rest)
  obtain p w where pw: "pw = (p, w)" by (cases pw)
  have queue: "queued_waiters s = (case w of None \<Rightarrow> [] | Some v \<Rightarrow> [v])
      @ List.map_filter snd rest"
    by (cases w) (simp_all add: Cons pw waiter_simps)
  have drop: "placed_once W s'"
    if "request_queue s' = rest" "requests s' = requests s" "actions s' = actions s"
    for s' :: "'a client_state"
  proof -
    have "queued_waiters s' = List.map_filter snd rest" "replied s' = replied s"
      using that by (simp_all add: queued_waiters_def replied_def)
    then show ?thesis
      using assms that(2) queue by (cases w) (auto simp: placed_once_def)
  qed
  have store: "placed_once W s'"
    if "request_queue s' = rest" "requests s' = (requests s)(k \<mapsto> v)" "actions s' = actions s"
      and "w = Some v" for s' :: "'a client_state" and k v
  proof -
    have s': "queued_waiters s' = List.map_filter snd rest" "replied s' = replied s"
      using that by (simp_all add: queued_waiters_def replied_def)
    have v: "v \<notin> ran (requests s)" "v \<notin> set (List.map_filter snd rest @ replied s)" "v \<in> W"
      using assms that(4) queue by (auto simp: placed_once_def)
    have inj: "inj_on (requests s') (dom (requests s'))"
      using assms inj_on_update[OF _ v(1)] that(2) by (simp add: placed_once_def)
    have ran: "ran (requests s') \<subseteq> insert v (ran (requests s))"
      using that(2) ran_update_subset by simp
    have old: "distinct (queued_waiters s' @ replied s')"
      "ran (requests s) \<inter> set (queued_waiters s' @ replied s') = {}"
      "ran (requests s) \<subseteq> W" "set (queued_waiters s' @ replied s') \<subseteq> W"
      using assms s' queue that(4) by (simp_all add: placed_once_def)
    have fresh: "v \<notin> set (queued_waiters s' @ replied s')" using v(2) s' by simp
    have "ran (requests s') \<inter> set (queued_waiters s' @ replied s') = {}"
      using ran old(2) fresh by blast
    moreover have "ran (requests s') \<union> set (queued_waiters s' @ replied s') \<subseteq> W"
      using ran old(3,4) v(3) by blast
    ultimately show ?thesis
      unfolding placed_once_def using inj old(1) by (intro conjI)
  qed
  show ?thesis
  proof (cases "chan_send p (inner_request_tx s)")
    case None
    then show ?thesis by (simp add: take_request_def Cons pw drop)
  next
    case (Some tx)
    show ?thesis
    proof (cases "\<exists>r v. t \<and> p = Request r \<and> w = Some v")
      case True
      then obtain r v where "t" "p = Request r" "w = Some v" by blast
      with Some show ?thesis
        by (simp add: take_request_def Cons pw) (rule store[of _ "rq_id r" v]; simp)
    next
      case False
      with Some have "take_request t s
          = Continue (s\<lparr>request_queue := rest, inner_request_tx := tx\<rparr>)"
        by (cases p; cases w; cases t) (simp_all add: take_request_def Cons pw)
      then show ?thesis using drop by simp
    qed
  qed
qed (simp add: take_request_def assms)

fun waiter_of :: "'w client_event \<Rightarrow> 'w list" where
  "waiter_of (Api_Request cmd body w) = [w]"
| "waiter_of _ = []"

lemma placed_once_mono: "placed_once W s \<Longrightarrow> W \<subseteq> V \<Longrightarrow> placed_once V s"
  by (auto simp: placed_once_def)

lemma background_placed:
  assumes "placed_once W s" and "set (waiter_of ev) \<inter> W = {}"
  shows "placed_once (W \<union> set (waiter_of ev)) (background_step ev s)"
proof (cases ev)
  case (Api_Request cmd body w)
  have "w \<notin> ran (requests s)" "w \<notin> set (queued_waiters s @ replied s)"
    using assms Api_Request by (auto simp: placed_once_def)
  moreover have "queued_waiters (api_request cmd body w s) =
      queued_waiters s @ (if cmd = Heartbeat \<or> cmd = Auth then [] else [w])"
    "replied (api_request cmd body w s) = replied s"
    "requests (api_request cmd body w s) = requests s"
    by (simp_all add: api_request_def next_id_def waiter_simps)
  ultimately show ?thesis using assms(1) Api_Request by (auto simp: placed_once_def)
next
  case (Api_Push q)
  then show ?thesis
    using placed_once_frame[OF assms(1), of "api_push q s" "[]"] by (simp add: api_push_def waiter_simps)
next
  case (Api_Response r)
  then show ?thesis
    using placed_once_frame[OF assms(1), of "api_response r s" "[]"]
    by (simp add: api_response_def waiter_simps)
qed (use assms dispatch_placed in simp_all)

lemma client_step_placed:
  assumes "placed_once W s" and "set (waiter_of ev) \<inter> W = {}"
  shows "placed_once (W \<union> set (waiter_of ev)) (ctl_state (client_step conf pb ev s))"
proof (cases ev)
  case (Main d)
  show ?thesis
  proof (cases "\<exists>t. d = Take_Request t")
    case True
    then show ?thesis using assms(1) Main take_request_placed by auto
  next
    case False
    from data_step_frame[OF this, of conf pb s] obtain as
      where "request_queue (ctl_state (data_step conf pb d s)) = request_queue s"
        "requests (ctl_state (data_step conf pb d s)) = requests s"
        "actions (ctl_state (data_step conf pb d s)) = actions s @ as" "\<forall>w r. Reply w r \<notin> set as"
      by blast
    then show ?thesis
      using placed_once_frame[OF assms(1)] Main by (simp add: queued_waiters_def)
  qed
qed (use background_placed[OF assms] in simp_all)

lemma run_placed:
  assumes "placed_once W s" and "distinct (concat (map waiter_of evs))"
    and "set (concat (map waiter_of evs)) \<inter> W = {}"
  shows "placed_once (W \<union> set (concat (map waiter_of evs)))
     (ctl_state (run_loop (client_step conf pb) evs s))"
  using assms
proof (induction evs arbitrary: W s)
  case (Cons ev evs)
  have step: "placed_once (W \<union> set (waiter_of ev)) (ctl_state (client_step conf pb ev s))"
    using client_step_placed[OF Cons.prems(1)] Cons.prems(3) by auto
  show ?case
  proof (cases "client_step conf pb ev s")
    case (Continue t)
    then have "placed_once ((W \<union> set (waiter_of ev)) \<union> set (concat (map waiter_of evs)))
        (ctl_state (run_loop (client_step conf pb) evs t))"
      using step Cons.prems by (intro Cons.IH) auto
    then show ?thesis using Continue by (simp add: Un_assoc)
  next
    case (Break e t)
    then show ?thesis using step by (auto intro: placed_once_mono)
  qed
qed simp

lemma replied_set: "w \<in> set (replied s) \<longleftrightarrow> (\<exists>r. Reply w r \<in> set (actions s))"
  by (auto simp: replied_def List.map_filter_def split: client_action.splits)

section \<open>Connections and silence\<close>

fun receives :: "'w client_event \<Rightarrow> bool" where
  "receives (Main (Recv_Packet now utc packet)) = True"
| "receives _ = False"

lemma quiet_step:
  assumes "client_step conf pb ev s = Continue t" and "\<not> receives ev"
  shows "is_authed t = is_authed s \<and> last_pong_at t = last_pong_at s
    \<and> conn_created_at t = conn_created_at s"
  using assms
  by (cases "(conf, pb, ev, s)" rule: client_step.cases; cases ev)
    (auto simp: dispatch_def dispatch_response_def act_def api_request_def api_push_def
      api_response_def next_id_def ping_tick_def take_request_def Let_def
      elim!: data_step.elims
      split: list.splits packet.splits option.splits if_splits prod.splits)

definition overdue :: "link_client_config \<Rightarrow> nat \<Rightarrow> 'w client_state \<Rightarrow> bool" where
  "overdue conf now s \<longleftrightarrow>
     (if is_authed s then last_pong_at s + heartbeat_timeout (lc_healthy_config conf) < now
      else conn_created_at s + auth_timeout (lc_healthy_config conf) < now)"

interpretation client_watchdog: watchdog "client_step conf pb" receives
  "\<lambda>now ev. \<exists>utc. ev = Main (Ping_Tick now utc)" "overdue conf" for conf pb
proof (unfold_locales, goal_cases)
  case (1 ev s t now)
  then show ?case using quiet_step[OF 1] by (simp add: overdue_def)
next
  case (2 now ev s t)
  then show ?case by (auto simp: overdue_def ping_tick_def split: if_splits)
qed

definition conn_log :: "'w client_state \<Rightarrow> client_conn_event list" where
  "conn_log s = List.map_filter (\<lambda>a. case a of On_Conn_Event e \<Rightarrow> Some e | _ \<Rightarrow> None) (actions s)"

lemma conn_log_act:
  "conn_log (act a s) = conn_log s @ (case a of On_Conn_Event e \<Rightarrow> [e] | _ \<Rightarrow> [])"
  by (simp add: conn_log_def act_def map_filter_append List.map_filter_simps split: client_action.split)

lemma conn_log_actions: "actions t = actions s \<Longrightarrow> conn_log t = conn_log s"
  by (simp add: conn_log_def)

lemma background_conn_log: "conn_log (background_step ev s) = conn_log s"
  by (cases ev) (auto simp: dispatch_def dispatch_response_def conn_log_act api_request_def
      api_push_def api_response_def next_id_def Let_def
      split: list.splits packet.splits option.splits intro: conn_log_actions)

lemma client_step_conn_log:
  assumes "client_step conf pb ev s = Continue t \<or> client_step conf pb ev s = data_break e t"
  shows "conn_log t = conn_log s"
proof (cases ev)
  case (Main d)
  have "actions t = actions s"
    using assms Main
    by (cases "(conf, pb, d, s)" rule: data_step.cases)
      (auto simp: ping_tick_def take_request_def recv_packet_def on_heartbeat_response_def
        on_auth_response_def try_process_def next_id_def Let_def
        split: option.splits packet.splits if_splits prod.splits sum.splits list.splits)
  then show ?thesis by (rule conn_log_actions)
qed (use assms background_conn_log[of ev s] in auto)

lemma run_conn_log:
  assumes "run_loop (client_step conf pb) evs s = Continue t
    \<or> run_loop (client_step conf pb) evs s = data_break e t"
  shows "conn_log t = conn_log s"
  using assms
proof (induction evs arbitrary: s)
  case (Cons ev evs)
  then show ?case
    using client_step_conn_log[of conf pb ev s] by (cases "client_step conf pb ev s") auto
qed simp

lemma start_connection_actions: "actions (start_connection conf pb se s) = actions s"
  by (simp add: start_connection_def next_id_def)

lemma data_loop_conn_log:
  assumes "data_loop conf pb se s = Continue t \<or> data_loop conf pb se s = data_break e t"
  shows "conn_log t = conn_log s"
proof -
  have "conn_log (fold background_step evs s) = conn_log s" for evs and s :: "'a client_state"
    by (induction evs arbitrary: s) (simp_all add: background_conn_log)
  then have "conn_log (start_connection conf pb se (fold background_step (se_before se) s)) = conn_log s"
    by (metis (no_types, lifting) conn_log_actions start_connection_actions)
  then show ?thesis using run_conn_log assms unfolding data_loop_def by metis
qed

definition fails :: "link_client_config \<Rightarrow> prost \<Rightarrow> 'w session \<Rightarrow> bool" where
  "fails conf pb se \<longleftrightarrow>
     se_cid_ok se \<and> (\<forall>s. \<exists>e t. data_loop conf pb se s = data_break e t)"

lemma link_task_fails:
  assumes "\<forall>se \<in> set ses. fails conf pb se" and "retry_times (lc_healthy_config conf) = n"
    and "unat r < unat n" and "unat n \<le> unat r + length ses"
  shows "\<exists>es e t. link_task conf pb ses r s = (Link_Err e, n, t)
    \<and> conn_log t = conn_log s @ map Conn_Error es @ [Disconnected_Forever e]
    \<and> unat r + Suc (length es) = unat n"
  using assms
proof (induction ses arbitrary: r s)
  case (Cons se ses)
  obtain e t where fail: "data_loop conf pb se s = data_break e t" and cid: "se_cid_ok se"
    using Cons.prems(1) unfolding fails_def by (meson list.set_intros(1))
  have "unat r + 1 < 2 ^ 32"
    using Cons.prems(3) unsigned_less[of n, where ?'a = nat] by simp
  then have inc: "unat (r + 1) = unat r + 1" by (simp add: unat_word_ariths(1))
  let ?t = "t\<lparr>request_id_gen := 1\<rparr>"
  have log_t: "conn_log ?t = conn_log s"
    using data_loop_conn_log[OF disjI2, OF fail] by (simp add: conn_log_def)
  show ?case
  proof (cases "n \<le> r + 1")
    case True
    then have "unat n = unat r + 1" using inc Cons.prems(3) by (simp add: word_le_nat_alt)
    then have "n = r + 1" using inc by (metis word_unat_eq_iff)
    moreover have "0 < n" using Cons.prems(3) by (simp add: word_less_nat_alt)
    ultimately show ?thesis
      using Cons.prems(2) fail cid inc
      by (intro exI[of _ "[]"]) (simp add: Let_def conn_log_act log_t)
  next
    case False
    then have less: "unat (r + 1) < unat n" by (simp add: word_le_nat_alt)
    let ?u = "act (On_Conn_Event (Conn_Error e)) ?t"
    obtain es e' v where "link_task conf pb ses (r + 1) ?u = (Link_Err e', n, v)"
      "conn_log v = conn_log ?u @ map Conn_Error es @ [Disconnected_Forever e']"
      "unat (r + 1) + Suc (length es) = unat n"
      using Cons.IH[OF _ Cons.prems(2) less, of ?u] Cons.prems(1,4) inc by auto
    then show ?thesis
      using Cons.prems(2) fail cid inc False
      by (intro exI[of _ "e # es"]) (simp add: Let_def conn_log_act log_t)
  qed
qed simp

section \<open>Properties\<close>

text \<open>C6: Replies are correlated and unique.  In any interleaving of callers, main task and
  dispatch task from a client with nothing pending, a caller of \<open>send_request\<close> who gets a reply
  gets one with the id of the packet queued for it, and no caller gets two replies.\<close>

theorem replies_correlated:
  assumes "request_queue s = []" and "requests s = Map.empty" and "actions s = []"
    and "distinct (concat (map waiter_of evs))"
    and "t = ctl_state (run_loop (client_step conf pb) evs s)"
  shows "(\<forall>w r. Reply w r \<in> set (actions t) \<longrightarrow>
        (\<exists>p. (w, p) \<in> set (issued conf pb evs s) \<and> get_request_id p = rs_id r))
    \<and> distinct (replied t)"
proof -
  have "correlated {} s" "placed_once {} s"
    using assms(1-3) by (simp_all add: correlated_def placed_once_def waiter_simps)
  then show ?thesis
    using run_correlated[of "{}" s conf pb evs] run_placed[of "{}" s evs conf pb] assms(4,5)
    by (simp add: correlated_def placed_once_def)
qed

definition test_conf :: link_client_config where
  "test_conf = \<lparr>lc_addr = ''h:1'', lc_username = ''u'', lc_password = ''p'', lc_client_name = ''c'',
     lc_subscribes = [\<lparr>sub_cmd = CmdSubTrades, sub_all_flag = True, sub_span_index = 0\<rparr>],
     lc_backup_config = None, lc_healthy_config = default_healthy_config,
     lc_channel_config = default_channel_config, lc_buffer_config = default_buffer_config,
     lc_quiche_config = default_quiche_config, lc_timeout_config = default_timeout_config\<rparr>"

definition ok_response :: "command \<Rightarrow> u32 \<Rightarrow> response" where
  "ok_response cmd i = response_new cmd i Success []"

definition request_run :: "nat client_event list" where
  "request_run = [Api_Request CmdSubDepth [] 7, Main (Take_Request True),
     Main (Recv_Packet 0 0 (Response (ok_response CmdSubDepth 1))), Dispatch]"

lemmas client_eval = dispatch_def dispatch_response_def act_def api_request_def next_id_def
  take_request_def recv_packet_def try_process_def on_auth_response_def ping_tick_def
  new_request_def request_id_trim_def ok_response_def response_new_def chan_send_def live_chan_def
  client_new_def test_conf_def default_channel_config_def default_healthy_config_def

theorem replies_correlated_witness:
  "\<exists>r p. Reply 7 r \<in> set (actions (ctl_state
        (run_loop (client_step test_conf plain_prost) request_run (client_new live_chan))))
     \<and> (7, p) \<in> set (issued test_conf plain_prost request_run (client_new live_chan))
     \<and> get_request_id p = rs_id r"
proof -
  let ?t = "ctl_state (run_loop (client_step test_conf plain_prost) request_run (client_new live_chan))"
  have "Reply 7 (ok_response CmdSubDepth 1) \<in> set (actions ?t)"
    by (simp add: request_run_def client_eval)
  moreover have "distinct (concat (map waiter_of request_run))" by (simp add: request_run_def)
  ultimately show ?thesis
    using replies_correlated[of "client_new live_chan" request_run ?t test_conf plain_prost]
    by (fastforce simp: client_new_def)
qed

text \<open>C26: A reply can come from the wrong connection.  The request ids start again at 1 after a
  lost connection, but the requests still pending are kept.  A response on the next
  connection whose id equals that of a pending request of the lost one is handed to the caller
  of that request, whatever it responds to.\<close>

theorem stale_reply:
  assumes "data_loop conf pb se s = data_break e t" and "se_cid_ok se" and "se_cid_ok se'"
    and "retry_times (lc_healthy_config conf) = 0"
    and "requests t (rs_id r) = Some w" and "process_open t" and "process_queue t = []"
    and "0 < process_chan_size (lc_channel_config conf)"
    and "rs_command r \<notin> {Heartbeat, Auth}" and "se_before se' = []"
    and "se_events se' = [Main (Recv_Packet now utc (Response r)), Dispatch]"
  shows "Reply w r \<in> set (actions (snd (snd (link_task conf pb [se, se'] 0 s))))"
  using assms
  by (simp add: data_loop_def[of conf pb se'] start_connection_def next_id_def recv_packet_def
      try_process_def dispatch_def dispatch_response_def act_def Let_def)

definition lost_session :: "nat session" where
  "lost_session = \<lparr>se_cid_ok = True, se_start = 0, se_chan = live_chan, se_before = [],
     se_events = [Api_Request CmdSubDepth [] 7, Main (Take_Request True), Main Recv_Closed]\<rparr>"

definition next_session :: "nat session" where
  "next_session = \<lparr>se_cid_ok = True, se_start = 5, se_chan = live_chan, se_before = [],
     se_events = [Main (Recv_Packet 7 0 (Response (ok_response CmdSubTrades 2))), Dispatch]\<rparr>"

definition subscribing_session :: "nat session" where
  "subscribing_session = next_session\<lparr>se_events :=
     [Main (Recv_Packet 6 0 (Response (ok_response Auth 1))), Dispatch] @ se_events next_session\<rparr>"

text \<open>
  The response here is the one to the trade subscription that the client itself sends as
  request 2 of the second connection.
\<close>

lemma subscribing_run:
  "\<exists>s. link_task test_conf plain_prost [lost_session, subscribing_session] 0 (client_new live_chan)
      = (Link_Running, 1, s)
    \<and> ch_sent (inner_request_tx s) = [new_subscribe plain_prost CmdSubTrades 2 True 0]
    \<and> actions s = [On_Conn_Event (Conn_Error Response_Chan_Closed), On_Connected,
        Reply 7 (ok_response CmdSubTrades 2)]"
  by (simp add: data_loop_def start_connection_def lost_session_def next_session_def
      subscribing_session_def client_eval Let_def)

theorem stale_reply_witness:
  "Reply 7 (ok_response CmdSubTrades 2) \<in> set (actions (snd (snd (link_task test_conf plain_prost
      [lost_session, next_session] 0 (client_new live_chan)))))
   \<and> (\<exists>s. link_task test_conf plain_prost [lost_session, subscribing_session] 0 (client_new live_chan)
         = (Link_Running, 1, s)
       \<and> ch_sent (inner_request_tx s) = [new_subscribe plain_prost CmdSubTrades 2 True 0]
       \<and> Reply 7 (ok_response CmdSubTrades 2) \<in> set (actions s))"
proof
  obtain t where t: "data_loop test_conf plain_prost lost_session (client_new live_chan)
      = data_break Response_Chan_Closed t"
    "requests t 2 = Some 7" "process_open t" "process_queue t = []"
    by (simp add: data_loop_def start_connection_def lost_session_def client_eval Let_def)
  then show "Reply 7 (ok_response CmdSubTrades 2) \<in> set (actions (snd (snd (link_task test_conf
      plain_prost [lost_session, next_session] 0 (client_new live_chan)))))"
    by (intro stale_reply[OF t(1)])
      (simp_all add: lost_session_def next_session_def test_conf_def default_healthy_config_def
        default_channel_config_def ok_response_def response_new_def)
  show "\<exists>s. link_task test_conf plain_prost [lost_session, subscribing_session] 0 (client_new live_chan)
         = (Link_Running, 1, s)
       \<and> ch_sent (inner_request_tx s) = [new_subscribe plain_prost CmdSubTrades 2 True 0]
       \<and> Reply 7 (ok_response CmdSubTrades 2) \<in> set (actions s)"
    using subscribing_run by force
qed

text \<open>C24: A silent peer is noticed.  In any run in which no packet is received, the first tick of
  the ping timer after the deadline ends the data loop: the heartbeat timeout after the last
  packet once authenticated, the authentication timeout after the start before that.\<close>

theorem silent_peer_detected:
  assumes "\<forall>ev \<in> set evs. \<not> receives ev" and "Main (Ping_Tick now utc) \<in> set evs"
    and "(if is_authed s then last_pong_at s + heartbeat_timeout (lc_healthy_config conf)
          else conn_created_at s + auth_timeout (lc_healthy_config conf)) < now"
  shows "\<exists>e t. run_loop (client_step conf pb) evs s = Break e t"
  using client_watchdog.silence_ends[OF assms(1,2)] assms(3)
  by (cases "is_authed s") (auto simp: overdue_def)

theorem silent_peer_detected_witness:
  "\<exists>e t. run_loop (client_step test_conf plain_prost)
     [Main (Ping_Tick 1 0), Dispatch, Api_Request CmdSubDepth [] (7 :: nat), Main (Take_Request True),
      Main (Ping_Tick (from_secs 11) 0)] (client_new live_chan) = Break e t"
  by (rule silent_peer_detected[where now = "from_secs 11" and utc = 0])
    (auto simp: client_new_def test_conf_def default_healthy_config_def)

text \<open>The first packet over an authenticated connection.  On a successful authentication
  response, with both channels alive, the client is authenticated, hands the response to the
  dispatch task, and sends its configured subscriptions, each once, in their order, under
  consecutive request ids; on any other status it does none of this and the connection ends.\<close>

lemma auth_response_subscribes:
  assumes "rs_command r = Auth" and "chan_live (inner_request_tx s)" and "process_open s"
  shows "(rs_status r = Success \<longrightarrow>
      (\<exists>t. recv_packet conf pb now utc (Response r) s = Continue t
        \<and> is_authed t \<and> last_pong_at t = now \<and> process_queue t = process_queue s @ [Response r]
        \<and> ch_sent (inner_request_tx t) = ch_sent (inner_request_tx s)
            @ map (\<lambda>(j, sub). new_subscribe pb (sub_cmd sub) (request_id_gen s + word_of_nat j)
                  (sub_all_flag sub) (sub_span_index sub))
                (List.enumerate 0 (lc_subscribes conf))
        \<and> request_id_gen t = request_id_gen s + word_of_nat (length (lc_subscribes conf))))
    \<and> (rs_status r \<noteq> Success \<longrightarrow>
      (\<exists>e. recv_packet conf pb now utc (Response r) s
             = data_break (Auth_Rejected e) (s\<lparr>last_pong_at := now\<rparr>)))"
proof -
  have "subscribe_packets pb subs i = map (\<lambda>(j, sub). new_subscribe pb (sub_cmd sub)
      (i + word_of_nat j - word_of_nat n) (sub_all_flag sub) (sub_span_index sub)) (List.enumerate n subs)"
    for subs i n
  proof (induction subs arbitrary: i n)
    case (Cons sub subs)
    show ?case
      unfolding subscribe_packets.simps Cons.IH[of "i + 1" "Suc n"] by (simp add: algebra_simps)
  qed simp
  from this[of "lc_subscribes conf" "request_id_gen s" 0] show ?thesis
    using assms by (auto simp: recv_packet_def on_auth_response_def flow_simps Let_def)
qed

lemma auth_response_subscribes_witness:
  "\<exists>t. recv_packet test_conf plain_prost 3 0 (Response (ok_response Auth 1))
       (client_new live_chan :: nat client_state) = Continue t
     \<and> ch_sent (inner_request_tx t) = [new_subscribe plain_prost CmdSubTrades 1 True 0]"
  using auth_response_subscribes[of "ok_response Auth 1" "client_new live_chan :: nat client_state"
      test_conf plain_prost 3 0]
  by (auto simp: client_new_def ok_response_def response_new_def test_conf_def)

text \<open>C16: The retry limit is exact.  With a limit of \<open>n > 0\<close>, if every connection attempt fails,
  the client makes exactly \<open>n\<close> attempts: it reports \<open>n - 1\<close> connection errors, then that it is
  disconnected for ever, and ends with the last error.\<close>

theorem link_task_attempts:
  assumes "\<forall>se \<in> set ses. fails conf pb se" and "0 < retry_times (lc_healthy_config conf)"
    and "unat (retry_times (lc_healthy_config conf)) \<le> length ses"
  shows "\<exists>es e t. link_task conf pb ses 0 s = (Link_Err e, retry_times (lc_healthy_config conf), t)
    \<and> conn_log t = conn_log s @ map Conn_Error es @ [Disconnected_Forever e]
    \<and> Suc (length es) = unat (retry_times (lc_healthy_config conf))"
  using link_task_fails[OF assms(1) refl, of 0 s] assms(2,3) by (simp add: word_less_nat_alt)

definition refused_session :: "nat session" where
  "refused_session = \<lparr>se_cid_ok = True, se_start = 0, se_chan = live_chan, se_before = [],
     se_events = [Main Conn_Task_Err]\<rparr>"

theorem link_task_attempts_witness:
  "\<exists>es e t. link_task (test_conf\<lparr>lc_healthy_config := default_healthy_config\<lparr>retry_times := 2\<rparr>\<rparr>)
       plain_prost [refused_session, refused_session, refused_session] 0 (client_new live_chan)
     = (Link_Err e, 2, t)
    \<and> conn_log t = conn_log (client_new live_chan :: nat client_state)
        @ map Conn_Error es @ [Disconnected_Forever e]
    \<and> length es = 1"
  using link_task_attempts[of "[refused_session, refused_session, refused_session]"
      "test_conf\<lparr>lc_healthy_config := default_healthy_config\<lparr>retry_times := 2\<rparr>\<rparr>" plain_prost
      "client_new live_chan"]
  by (auto simp: fails_def refused_session_def data_loop_def)

text \<open>What \<open>send_request\<close> returns.  It returns a value exactly when the command is not one
  the client sends itself, the client is linked, the packet was handed over in time, a response
  came in time, the response converts to the value, and the response is a success or its body
  is not a link error.  So a response of another status whose body does not decode as a link
  error but converts is returned as a success.\<close>

lemma send_request_result_ok:
  "send_request_result pb try_from cmd linked send answer = Inr x \<longleftrightarrow>
     cmd \<noteq> Heartbeat \<and> cmd \<noteq> Auth \<and> linked \<and> send = Send_Done
     \<and> (\<exists>resp. answer = Answered resp \<and> try_from resp = Inr x
          \<and> (rs_status resp = Success \<or> dec_link_error pb (rs_body resp) = None))"
  by (cases send; cases answer)
    (auto simp: send_request_result_def split: option.split sum.split)

end
