(* ===== verification/Link_Server.thy ===== *)
theory Link_Server
  imports Messages Link_Config Event_Loops
begin

text \<open>
  \<open>link/src/server.rs\<close>: the public interface of \<open>Server\<close>, the connection management task with
  its map of clients, and for each accepted connection the main loop and the callback loop.
  Each loop is a step function on its local variables; what it sends on a channel is kept in
  the state.  A connection's broadcast and exit senders are one identifier, \<open>conn_id\<close>.

  The callbacks of \<open>ConnHandler\<close> are parameters or recorded calls: \<open>on_auth\<close> is a function of
  what it is given, the others are appended to the state in the order they are made.  Sending
  to the management task is taken to succeed: it ends only together with the server.
\<close>

section \<open>The public interface\<close>

datatype server_signal = Close_Client string | Shutdown

record server =
  sv_conf :: link_server_config
  sv_send_tx :: "packet chan option"
  sv_signal_tx :: "server_signal chan option"

datatype server_error = Not_Serving | Server_Chan_Closed

definition server_new :: "link_server_config \<Rightarrow> server" where
  "server_new conf = \<lparr>sv_conf = conf, sv_send_tx = None, sv_signal_tx = None\<rparr>"

definition get_sender :: "server \<Rightarrow> server_error + packet chan" where
  "get_sender s = (case sv_send_tx s of Some tx \<Rightarrow> Inr tx | None \<Rightarrow> Inl Not_Serving)"

definition send_packet :: "packet \<Rightarrow> server \<Rightarrow> server_error + server" where
  "send_packet packet s =
     (case sv_send_tx s of
        None \<Rightarrow> Inl Not_Serving
      | Some tx \<Rightarrow>
          (case chan_send packet tx of
             None \<Rightarrow> Inl Server_Chan_Closed
           | Some tx' \<Rightarrow> Inr (s\<lparr>sv_send_tx := Some tx'\<rparr>)))"

definition quotation_push :: "command \<Rightarrow> msg_type \<Rightarrow> bytes \<Rightarrow> push" where
  "quotation_push cmd mt raw_data =
     \<lparr>ps_reserved = 0, ps_command = cmd, ps_msg_type = mt, ps_body_len = len_u32 raw_data,
      ps_body = raw_data\<rparr>"

definition send_quotation ::
    "('q \<Rightarrow> bytes) \<Rightarrow> 'q \<Rightarrow> command \<Rightarrow> msg_type \<Rightarrow> server \<Rightarrow> server_error + server" where
  "send_quotation encode quotation cmd mt s =
     send_packet (Push (quotation_push cmd mt (encode quotation))) s"

definition send_signal :: "server_signal \<Rightarrow> server \<Rightarrow> server_error + server" where
  "send_signal signal s =
     (case sv_signal_tx s of
        None \<Rightarrow> Inl Not_Serving
      | Some tx \<Rightarrow>
          (case chan_send signal tx of
             None \<Rightarrow> Inl Server_Chan_Closed
           | Some tx' \<Rightarrow> Inr (s\<lparr>sv_signal_tx := Some tx'\<rparr>)))"

section \<open>The connection management task\<close>

type_synonym conn_id = nat

datatype conn_signal = Conn_New string conn_id | Conn_Exit string

record mgmt_state =
  clients :: "(string \<times> conn_id) list"
  broadcasts :: "conn_id \<Rightarrow> packet list"
  exit_signals :: "conn_id list"
  clients_gauge :: "nat list"

definition mgmt_init :: mgmt_state where
  "mgmt_init = \<lparr>clients = [], broadcasts = (\<lambda>_. []), exit_signals = [], clients_gauge = []\<rparr>"

datatype mgmt_event =
  From_Server server_signal | From_Conn conn_signal | Metric_Tick | Send_All packet

definition broadcast_to :: "packet \<Rightarrow> conn_id \<Rightarrow> (conn_id \<Rightarrow> packet list) \<Rightarrow> conn_id \<Rightarrow> packet list" where
  "broadcast_to packet c bc = bc(c := bc c @ [packet])"

fun mgmt_step :: "mgmt_event \<Rightarrow> mgmt_state \<Rightarrow> (unit, mgmt_state) ctl" where
  "mgmt_step (From_Server (Close_Client name)) s =
     (case map_of (clients s) name of
        Some c \<Rightarrow> Continue (s\<lparr>clients := AList.delete name (clients s),
                              exit_signals := exit_signals s @ [c]\<rparr>)
      | None \<Rightarrow> Continue s)"
| "mgmt_step (From_Server Shutdown) s = Break () s"
| "mgmt_step (From_Conn (Conn_New name c)) s =
     Continue (s\<lparr>clients := AList.update name c (clients s)\<rparr>)"
| "mgmt_step (From_Conn (Conn_Exit name)) s =
     Continue (s\<lparr>clients := AList.delete name (clients s)\<rparr>)"
| "mgmt_step Metric_Tick s =
     Continue (s\<lparr>clients_gauge := clients_gauge s @ [length (clients s)]\<rparr>)"
| "mgmt_step (Send_All packet) s =
     Continue (s\<lparr>broadcasts := fold (broadcast_to packet) (map snd (clients s)) (broadcasts s)\<rparr>)"

section \<open>The main loop of a connection\<close>

record conn_state =
  peer_address :: string
  this_conn :: conn_id
  is_auth_ok :: bool
  conn_name :: string
  last_ping_at :: nat
  conn_auth_info :: auth_info
  send_tx :: "packet chan"
  recved_queue :: "packet list"
  recved_open :: bool
  deferred :: "packet list"
  handed :: "packet list"
  mgmt_signals :: "conn_signal list"
  disconnects :: "auth_info list"

definition conn_init :: "string \<Rightarrow> conn_id \<Rightarrow> nat \<Rightarrow> packet chan \<Rightarrow> conn_state" where
  "conn_init peer c now tx =
     \<lparr>peer_address = peer, this_conn = c, is_auth_ok = False, conn_name = ''waitAuth@'' @ peer,
      last_ping_at = now, conn_auth_info = default_auth_info, send_tx = tx, recved_queue = [],
      recved_open = True, deferred = [], handed = [], mgmt_signals = [], disconnects = []\<rparr>"

datatype conn_error =
  Peer_Heartbeat_Timeout | Peer_Auth_Timeout | Closed_By_Server | Auth_Decode_Failed
| Peer_Recv_Closed

datatype conn_event =
  Hb_Tick nat | Exit_Signal | Peer_Packet nat packet | Peer_Closed
| Deferred_Done nat | Callback_Takes | Callback_Gone

type_synonym conn_ctl = "(conn_error, conn_state) ctl"

definition check_heartbeat :: "link_server_config \<Rightarrow> nat \<Rightarrow> conn_state \<Rightarrow> conn_ctl" where
  "check_heartbeat conf now s =
     (if is_auth_ok s then
        if now - last_ping_at s > heartbeat_timeout (ls_healthy_config conf)
        then Break Peer_Heartbeat_Timeout s else Continue s
      else
        if now - last_ping_at s > auth_timeout (ls_healthy_config conf)
        then Break Peer_Auth_Timeout s else Continue s)"

definition on_heartbeat_request :: "request \<Rightarrow> conn_state \<Rightarrow> conn_ctl" where
  "on_heartbeat_request request s =
     (case chan_send (new_heartbeat_response request) (send_tx s) of
        None \<Rightarrow> Continue s
      | Some tx \<Rightarrow> Continue (s\<lparr>send_tx := tx\<rparr>))"

definition on_auth_request ::
    "prost \<Rightarrow> (string \<Rightarrow> u32 \<Rightarrow> auth_info \<Rightarrow> bool) \<Rightarrow> request \<Rightarrow> conn_state \<Rightarrow> conn_ctl" where
  "on_auth_request pb on_auth request s =
     (case dec_auth_request pb (rq_body request) of
        None \<Rightarrow> Break Auth_Decode_Failed s
      | Some auth_req \<Rightarrow>
          let info = (case ar_auth_info auth_req of None \<Rightarrow> default_auth_info | Some i \<Rightarrow> i);
              s = s\<lparr>conn_auth_info := info,
                    conn_name := client_name info @ ''@'' @ peer_address s\<rparr> in
          if \<not> on_auth (peer_address s) (rq_id request) info then Continue s
          else let s = s\<lparr>is_auth_ok := True,
                         mgmt_signals := mgmt_signals s @ [Conn_New (conn_name s) (this_conn s)]\<rparr> in
            Continue (if recved_open s
                      then s\<lparr>recved_queue := recved_queue s @ [Request request]\<rparr> else s))"

definition forward_packet :: "link_server_config \<Rightarrow> packet \<Rightarrow> conn_state \<Rightarrow> conn_ctl" where
  "forward_packet conf packet s =
     (if \<not> recved_open s then Continue s
      else if process_chan_size (ls_channel_config conf) \<le> length (recved_queue s)
      then Continue (s\<lparr>deferred := deferred s @ [packet]\<rparr>)
      else Continue (s\<lparr>recved_queue := recved_queue s @ [packet]\<rparr>))"

definition on_peer_packet ::
    "link_server_config \<Rightarrow> prost \<Rightarrow> (string \<Rightarrow> u32 \<Rightarrow> auth_info \<Rightarrow> bool) \<Rightarrow> nat \<Rightarrow> packet
      \<Rightarrow> conn_state \<Rightarrow> conn_ctl" where
  "on_peer_packet conf pb on_auth now packet s =
     (let s = s\<lparr>last_ping_at := now\<rparr> in
      case packet of
        Request request \<Rightarrow>
          if rq_command request = Heartbeat then on_heartbeat_request request s
          else if rq_command request = Auth then on_auth_request pb on_auth request s
          else forward_packet conf packet s
      | _ \<Rightarrow> forward_packet conf packet s)"

text \<open>
  The channel to the callback loop: \<open>Callback_Takes\<close> is that loop receiving the packet at its
  head, \<open>Callback_Gone\<close> that loop having ended.  \<open>Deferred_Done i\<close> is the completion of a task
  spawned to send a packet for which there was no room; these tasks race, and each waits until
  there is room.
\<close>

definition deferred_done :: "link_server_config \<Rightarrow> nat \<Rightarrow> conn_state \<Rightarrow> conn_state" where
  "deferred_done conf i s =
     (let rest = take i (deferred s) @ drop (Suc i) (deferred s) in
      if length (deferred s) \<le> i then s
      else if \<not> recved_open s then s\<lparr>deferred := rest\<rparr>
      else if process_chan_size (ls_channel_config conf) \<le> length (recved_queue s) then s
      else s\<lparr>deferred := rest, recved_queue := recved_queue s @ [deferred s ! i]\<rparr>)"

definition callback_takes :: "conn_state \<Rightarrow> conn_state" where
  "callback_takes s =
     (case recved_queue s of
        [] \<Rightarrow> s
      | p # ps \<Rightarrow> s\<lparr>recved_queue := ps, handed := handed s @ [p]\<rparr>)"

fun conn_step ::
    "link_server_config \<Rightarrow> prost \<Rightarrow> (string \<Rightarrow> u32 \<Rightarrow> auth_info \<Rightarrow> bool) \<Rightarrow> conn_event
      \<Rightarrow> conn_state \<Rightarrow> conn_ctl" where
  "conn_step conf pb on_auth (Hb_Tick now) s = check_heartbeat conf now s"
| "conn_step conf pb on_auth Exit_Signal s = Break Closed_By_Server s"
| "conn_step conf pb on_auth (Peer_Packet now packet) s = on_peer_packet conf pb on_auth now packet s"
| "conn_step conf pb on_auth Peer_Closed s = Break Peer_Recv_Closed s"
| "conn_step conf pb on_auth (Deferred_Done i) s = Continue (deferred_done conf i s)"
| "conn_step conf pb on_auth Callback_Takes s = Continue (callback_takes s)"
| "conn_step conf pb on_auth Callback_Gone s = Continue (s\<lparr>recved_open := False\<rparr>)"

definition conn_finish :: "conn_state \<Rightarrow> conn_state" where
  "conn_finish s =
     (let s = (if is_auth_ok s then s\<lparr>disconnects := disconnects s @ [conn_auth_info s]\<rparr> else s) in
      s\<lparr>mgmt_signals := mgmt_signals s @ [Conn_Exit (conn_name s)]\<rparr>)"

definition conn_task ::
    "link_server_config \<Rightarrow> prost \<Rightarrow> (string \<Rightarrow> u32 \<Rightarrow> auth_info \<Rightarrow> bool) \<Rightarrow> conn_event list
      \<Rightarrow> conn_state \<Rightarrow> conn_ctl" where
  "conn_task conf pb on_auth evs s =
     (case run_loop (conn_step conf pb on_auth) evs s of
        Continue t \<Rightarrow> Continue t
      | Break e t \<Rightarrow> Break e (conn_finish t))"

section \<open>The callback loop of a connection\<close>

datatype handler_call =
  H_Request request | H_Response response | H_Push push | H_Send packet

text \<open>
  \<open>on_send\<close> is awaited by the loop; the other calls run in tasks of their own, and
  \<open>run_spawned\<close> is such a task making its call.
\<close>

record callback_state =
  cb_peer :: string
  cb_name :: string
  spawned :: "handler_call list"
  handler_calls :: "handler_call list"

datatype callback_error = Cb_Auth_Decode_Failed | Cb_Recv_Closed | Cb_Broadcast_Closed

datatype callback_event =
  Cb_Packet packet | Cb_Stopped | Cb_Broadcast packet | Cb_Lagged | Cb_Broadcast_End

definition callback_init :: "string \<Rightarrow> callback_state" where
  "callback_init peer =
     \<lparr>cb_peer = peer, cb_name = ''waitAuth@'' @ peer, spawned = [], handler_calls = []\<rparr>"

definition call_handler :: "handler_call \<Rightarrow> callback_state \<Rightarrow> (callback_error, callback_state) ctl" where
  "call_handler call s = Continue (s\<lparr>handler_calls := handler_calls s @ [call]\<rparr>)"

definition spawn_handler :: "handler_call \<Rightarrow> callback_state \<Rightarrow> (callback_error, callback_state) ctl" where
  "spawn_handler call s = Continue (s\<lparr>spawned := spawned s @ [call]\<rparr>)"

definition run_spawned :: "nat \<Rightarrow> callback_state \<Rightarrow> callback_state" where
  "run_spawned i s =
     (if i < length (spawned s)
      then s\<lparr>spawned := take i (spawned s) @ drop (Suc i) (spawned s),
             handler_calls := handler_calls s @ [spawned s ! i]\<rparr>
      else s)"

fun callback_step :: "prost \<Rightarrow> callback_event \<Rightarrow> callback_state \<Rightarrow> (callback_error, callback_state) ctl" where
  "callback_step pb (Cb_Packet (Request request)) s =
     (if rq_command request = Auth then
        (case dec_auth_request pb (rq_body request) of
           None \<Rightarrow> Break Cb_Auth_Decode_Failed s
         | Some auth_req \<Rightarrow>
             let name = (case ar_auth_info auth_req of None \<Rightarrow> ''lackAuthInfo''
                         | Some info \<Rightarrow> client_name info) in
             Continue (s\<lparr>cb_name := name @ ''@'' @ cb_peer s\<rparr>))
      else spawn_handler (H_Request request) s)"
| "callback_step pb (Cb_Packet (Response response)) s = spawn_handler (H_Response response) s"
| "callback_step pb (Cb_Packet (Push push)) s = spawn_handler (H_Push push) s"
| "callback_step pb Cb_Stopped s = Break Cb_Recv_Closed s"
| "callback_step pb (Cb_Broadcast packet) s = call_handler (H_Send packet) s"
| "callback_step pb Cb_Lagged s = Continue s"
| "callback_step pb Cb_Broadcast_End s = Break Cb_Broadcast_Closed s"

section \<open>The listen loop\<close>

datatype task_result = Task_Ok | Task_Failed

datatype listen_event =
  Listen_Ctrl_C | Server_Task_Done task_result | Mgmt_Task_Done task_result
| Accepted string nat "packet chan"

datatype listen_exit = Listen_Ok | Listen_Err

fun listen_step :: "listen_event \<Rightarrow> conn_state list \<Rightarrow> (listen_exit, conn_state list) ctl" where
  "listen_step Listen_Ctrl_C conns = Break Listen_Ok conns"
| "listen_step (Server_Task_Done Task_Ok) conns = Break Listen_Ok conns"
| "listen_step (Server_Task_Done Task_Failed) conns = Break Listen_Err conns"
| "listen_step (Mgmt_Task_Done Task_Ok) conns = Break Listen_Ok conns"
| "listen_step (Mgmt_Task_Done Task_Failed) conns = Break Listen_Err conns"
| "listen_step (Accepted peer now tx) conns =
     Continue (conns @ [conn_init peer (length conns) now tx])"

end
