(* ===== verification/Server_Theorems.thy ===== *)
theory Server_Theorems
  imports Link_Server Wire_Laws "HOL-Library.Multiset"
begin

text \<open>
  The properties of the server: who is registered after a connection ends, what a broadcast
  reaches, who is disconnected when, and how a published quotation reaches a client.
\<close>

section \<open>The clients map\<close>

fun signal_op :: "conn_signal \<Rightarrow> (string, conn_id) reg_op" where
  "signal_op (Conn_New name c) = Reg_Insert name c"
| "signal_op (Conn_Exit name) = Reg_Remove name"

lemma mgmt_signals_run:
  "\<exists>m'. run_loop mgmt_step (map From_Conn sigs) m = Continue m'
     \<and> clients m' = fold alist_registry.reg_apply (map signal_op sigs) (clients m)"
proof (induction sigs arbitrary: m)
  case (Cons sig sigs)
  show ?case
  proof (cases sig)
    case (Conn_New name c)
    then show ?thesis
      using Cons[of "m\<lparr>clients := AList.update name c (clients m)\<rparr>"] by simp
  next
    case (Conn_Exit name)
    then show ?thesis
      using Cons[of "m\<lparr>clients := AList.delete name (clients m)\<rparr>"] by simp
  qed
qed simp

lemma conn_step_signals:
  assumes "conn_step conf pb on_auth ev s = Continue t \<or> conn_step conf pb on_auth ev s = Break e t"
  shows "(\<exists>sigs. mgmt_signals t = mgmt_signals s @ sigs
      \<and> (\<forall>sig \<in> set sigs. \<exists>n. sig = Conn_New n (this_conn s)))
    \<and> this_conn t = this_conn s \<and> disconnects t = disconnects s
    \<and> (is_auth_ok s \<longrightarrow> is_auth_ok t) \<and> (is_auth_ok t \<noteq> is_auth_ok s \<longrightarrow> mgmt_signals t \<noteq> mgmt_signals s)
    \<and> (\<not> is_auth_ok t \<longrightarrow> mgmt_signals t = mgmt_signals s)"
  using assms
  by (cases "(conf, pb, on_auth, ev, s)" rule: conn_step.cases)
    (auto simp: check_heartbeat_def on_peer_packet_def on_heartbeat_request_def
      on_auth_request_def forward_packet_def deferred_done_def callback_takes_def Let_def
      split: if_splits option.splits packet.splits list.splits)

lemma run_signals:
  assumes "run_loop (conn_step conf pb on_auth) evs s = Continue t
     \<or> run_loop (conn_step conf pb on_auth) evs s = Break e t"
  shows "(\<exists>sigs. mgmt_signals t = mgmt_signals s @ sigs
      \<and> (\<forall>sig \<in> set sigs. \<exists>n. sig = Conn_New n (this_conn s)))
    \<and> this_conn t = this_conn s \<and> disconnects t = disconnects s
    \<and> (is_auth_ok s \<longrightarrow> is_auth_ok t) \<and> (is_auth_ok t \<noteq> is_auth_ok s \<longrightarrow> mgmt_signals t \<noteq> mgmt_signals s)
    \<and> (\<not> is_auth_ok t \<longrightarrow> mgmt_signals t = mgmt_signals s)"
  using assms
proof (induction evs arbitrary: s)
  case (Cons ev evs)
  show ?case
  proof (cases "conn_step conf pb on_auth ev s")
    case (Continue u)
    then have u: "run_loop (conn_step conf pb on_auth) evs u = Continue t
       \<or> run_loop (conn_step conf pb on_auth) evs u = Break e t" using Cons.prems by simp
    from Continue have "conn_step conf pb on_auth ev s = Continue u \<or> conn_step conf pb on_auth ev s = Break e u"
      by simp
    note first = conn_step_signals[OF this] and rest = Cons.IH[OF u]
    from first obtain a where a: "mgmt_signals u = mgmt_signals s @ a"
      "\<forall>sig \<in> set a. \<exists>n. sig = Conn_New n (this_conn s)" by blast
    from rest obtain b where b: "mgmt_signals t = mgmt_signals u @ b"
      "\<forall>sig \<in> set b. \<exists>n. sig = Conn_New n (this_conn s)" using first by auto
    have "mgmt_signals t = mgmt_signals s @ a @ b
        \<and> (\<forall>sig \<in> set (a @ b). \<exists>n. sig = Conn_New n (this_conn s))" using a b by auto
    then show ?thesis using first rest a b by auto
  next
    case (Break e' u)
    then show ?thesis
      using Cons.prems conn_step_signals[of conf pb on_auth ev s t e] by auto
  qed
qed auto

text \<open>
  After a list of \<open>New\<close> signals of one connection and its \<open>Exit\<close>, a name that was not
  registered before is registered exactly when it was announced and is not the one that exits.
\<close>

lemma new_then_exit:
  assumes "\<forall>sig \<in> set sigs. \<exists>n. sig = Conn_New n c" and "map_of m n = None"
  shows "map_of (fold alist_registry.reg_apply (map signal_op (sigs @ [Conn_Exit name])) m) n
     = (if Conn_New n c \<in> set sigs \<and> n \<noteq> name then Some c else None)"
proof -
  have "map_of (fold alist_registry.reg_apply (map signal_op sigs) m) n =
      (if Conn_New n c \<in> set sigs then Some c else None)"
    using assms(1)
  proof (induction sigs rule: rev_induct)
    case (snoc sig sigs)
    then obtain k where "sig = Conn_New k c" by auto
    then show ?case using snoc by (auto simp: alist_registry.lookup_apply update_conv)
  qed (simp add: assms(2))
  then show ?thesis by (simp add: delete_conv')
qed

section \<open>Silence\<close>

fun peer_active :: "conn_event \<Rightarrow> bool" where
  "peer_active (Peer_Packet now packet) = True"
| "peer_active _ = False"

definition conn_overdue :: "link_server_config \<Rightarrow> nat \<Rightarrow> conn_state \<Rightarrow> bool" where
  "conn_overdue conf now s \<longleftrightarrow>
     last_ping_at s + (if is_auth_ok s then heartbeat_timeout (ls_healthy_config conf)
                       else auth_timeout (ls_healthy_config conf)) < now"

interpretation conn_watchdog: watchdog "conn_step conf pb on_auth" peer_active
  "\<lambda>now ev. ev = Hb_Tick now" "conn_overdue conf" for conf pb on_auth
proof (unfold_locales, goal_cases)
  case (1 ev s t now)
  then show ?case
    by (cases "(conf, pb, on_auth, ev, s)" rule: conn_step.cases)
      (auto simp: check_heartbeat_def conn_overdue_def deferred_done_def callback_takes_def Let_def
        split: if_splits list.splits)
next
  case (2 now ev s t)
  then show ?case by (auto simp: check_heartbeat_def conn_overdue_def split: if_splits)
qed

text \<open>
  The events of a client that never authenticates: packets other than authentication requests,
  and ticks within the authentication timeout of the last packet.
\<close>

fun lurks :: "nat \<Rightarrow> nat \<Rightarrow> conn_event list \<Rightarrow> bool" where
  "lurks limit seen [] = True"
| "lurks limit seen (Hb_Tick now # evs) \<longleftrightarrow> now \<le> seen + limit \<and> lurks limit seen evs"
| "lurks limit seen (Peer_Packet now p # evs) \<longleftrightarrow>
     (\<forall>r. p = Request r \<longrightarrow> rq_command r \<noteq> Auth) \<and> lurks limit now evs"
| "lurks limit seen (Deferred_Done i # evs) \<longleftrightarrow> lurks limit seen evs"
| "lurks limit seen (Callback_Takes # evs) \<longleftrightarrow> lurks limit seen evs"
| "lurks limit seen (_ # evs) = False"

fun forwarded :: "conn_event list \<Rightarrow> packet list" where
  "forwarded [] = []"
| "forwarded (Peer_Packet now p # evs) =
     (case p of Request r \<Rightarrow> if rq_command r = Heartbeat then [] else [p] | _ \<Rightarrow> [p]) @ forwarded evs"
| "forwarded (_ # evs) = forwarded evs"

text \<open>The packets that were given to the callback loop, are on the channel or wait for room.\<close>

abbreviation in_hand :: "conn_state \<Rightarrow> packet list" where
  "in_hand s \<equiv> handed s @ recved_queue s @ deferred s"

lemma mset_remove_nth:
  "i < length xs \<Longrightarrow> mset xs = add_mset (xs ! i) (mset (take i xs) + mset (drop (Suc i) xs))"
  using arg_cong[OF id_take_nth_drop, of i xs mset] by simp

lemma lurking_step:
  assumes "lurks (auth_timeout (ls_healthy_config conf)) (last_ping_at s) (ev # evs)"
    and "\<not> is_auth_ok s" and "recved_open s"
  shows "\<exists>t. conn_step conf pb on_auth ev s = Continue t \<and> \<not> is_auth_ok t \<and> recved_open t
    \<and> lurks (auth_timeout (ls_healthy_config conf)) (last_ping_at t) evs
    \<and> mset (in_hand t)
        = mset (in_hand s) + mset (forwarded [ev])"
proof (cases ev)
  case (Hb_Tick now)
  then show ?thesis using assms by (auto simp: check_heartbeat_def)
next
  case (Peer_Packet now p)
  then show ?thesis
    using assms
    by (cases p) (auto simp: on_peer_packet_def on_heartbeat_request_def forward_packet_def Let_def
        split: option.split)
next
  case (Deferred_Done i)
  then show ?thesis
    using assms mset_remove_nth[of i "deferred s"]
    by (cases "i < length (deferred s)") (auto simp: deferred_done_def Let_def)
next
  case Callback_Takes
  then show ?thesis using assms by (auto simp: callback_takes_def split: list.split)
qed (use assms in auto)

lemma lurking_run:
  assumes "lurks (auth_timeout (ls_healthy_config conf)) (last_ping_at s) evs"
    and "\<not> is_auth_ok s" and "recved_open s"
  shows "\<exists>t. run_loop (conn_step conf pb on_auth) evs s = Continue t \<and> \<not> is_auth_ok t
    \<and> mset (in_hand t)
        = mset (in_hand s) + mset (forwarded evs)"
  using assms
proof (induction evs arbitrary: s)
  case (Cons ev evs)
  obtain u where u: "conn_step conf pb on_auth ev s = Continue u" "\<not> is_auth_ok u" "recved_open u"
    "lurks (auth_timeout (ls_healthy_config conf)) (last_ping_at u) evs"
    "mset (in_hand u)
        = mset (in_hand s) + mset (forwarded [ev])"
    using lurking_step[OF Cons.prems] by blast
  obtain t where t: "run_loop (conn_step conf pb on_auth) evs u = Continue t" "\<not> is_auth_ok t"
    "mset (in_hand t)
        = mset (in_hand u) + mset (forwarded evs)"
    using Cons.IH[OF u(4,2,3)] by blast
  have "forwarded (ev # evs) = forwarded [ev] @ forwarded evs" by (cases ev) simp_all
  then have "mset (in_hand t)
      = mset (in_hand s) + mset (forwarded (ev # evs))"
    unfolding t(3) u(5) by (simp add: add.assoc)
  with t(1,2) u(1) show ?case by simp
qed simp

lemma broadcast_fold:
  "fold (broadcast_to packet) cs bc c = bc c @ replicate (count (mset cs) c) packet"
  by (induction cs arbitrary: bc)
    (auto simp: broadcast_to_def replicate_append_same[symmetric])

section \<open>Properties\<close>

text \<open>C19: What stays registered.  When a connection's main loop has ended and the management
  task has processed its signals, a name not registered before is registered exactly if the
  connection had announced it after a successful authentication and it is not the connection's
  last name.  So a client that authenticates twice under different names leaves the first in
  the clients map for good.\<close>

theorem exit_unregisters_last_name_only:
  assumes "conn_task conf pb on_auth evs (conn_init peer c now tx) = Break e s"
    and "map_of (clients m) n = None"
  shows "\<exists>m'. run_loop mgmt_step (map From_Conn (mgmt_signals s)) m = Continue m'
    \<and> map_of (clients m') n =
        (if Conn_New n c \<in> set (mgmt_signals s) \<and> n \<noteq> conn_name s then Some c else None)"
proof -
  obtain t where t: "run_loop (conn_step conf pb on_auth) evs (conn_init peer c now tx) = Break e t"
    and s: "s = conn_finish t"
    using assms(1) by (auto simp: conn_task_def split: ctl.splits)
  obtain sigs where sigs: "mgmt_signals t = sigs" "\<forall>sig \<in> set sigs. \<exists>n. sig = Conn_New n c"
    using run_signals[of conf pb on_auth evs "conn_init peer c now tx" t e] t
    by (auto simp: conn_init_def)
  then have out: "mgmt_signals s = sigs @ [Conn_Exit (conn_name s)]" "conn_name s = conn_name t"
    by (simp_all add: s conn_finish_def Let_def)
  show ?thesis
    using mgmt_signals_run[of "mgmt_signals s" m] new_then_exit[OF sigs(2) assms(2), of "conn_name s"] out
    by auto
qed

definition one_client_conf :: link_server_config where
  "one_client_conf = \<lparr>ls_listen_addr = ''h:1'', ls_healthy_config = default_healthy_config,
     ls_channel_config = default_channel_config, ls_buffer_config = default_buffer_config,
     ls_quiche_config = default_quiche_config, ls_timeout_config = default_timeout_config\<rparr>"

text \<open>A codec whose authentication requests carry the client's name, one of two.\<close>

definition name_prost :: prost where
  "name_prost = plain_prost\<lparr>dec_auth_request := \<lambda>b. Some \<lparr>ar_auth_info =
     Some \<lparr>user_name = [], password = [], client_name = (if b = [1] then ''a'' else ''b'')\<rparr>\<rparr>\<rparr>"

definition auth_as :: "bytes \<Rightarrow> packet" where
  "auth_as name = new_request Auth 1 name"

definition two_names :: "conn_event list" where
  "two_names = [Peer_Packet 1 (auth_as [1]), Peer_Packet 2 (auth_as [2]), Peer_Closed]"

definition after_two_names :: conn_state where
  "after_two_names = ctl_state (conn_task one_client_conf name_prost (\<lambda>_ _ _. True) two_names
     (conn_init ''p'' 0 0 live_chan))"

lemma two_names_run:
  "conn_task one_client_conf name_prost (\<lambda>_ _ _. True) two_names (conn_init ''p'' 0 0 live_chan)
     = Break Peer_Recv_Closed after_two_names
   \<and> mgmt_signals after_two_names = [Conn_New ''a@p'' 0, Conn_New ''b@p'' 0, Conn_Exit ''b@p'']
   \<and> conn_name after_two_names = ''b@p''"
  by (simp add: after_two_names_def conn_task_def two_names_def conn_finish_def on_peer_packet_def
      on_auth_request_def auth_as_def new_request_def name_prost_def conn_init_def)

theorem exit_unregisters_last_name_only_witness:
  "\<exists>m'. run_loop mgmt_step (map From_Conn (mgmt_signals after_two_names)) mgmt_init = Continue m'
    \<and> map_of (clients m') ''a@p'' = Some 0"
  using exit_unregisters_last_name_only[OF conjunct1[OF two_names_run], of mgmt_init "''a@p''"]
    two_names_run
  by (simp add: mgmt_init_def)



text \<open>A silent client is dropped.  Without a packet from the peer, the first tick of the
  heartbeat timer after the timeout ends the connection's main loop: the heartbeat timeout for
  an authenticated client, the authentication timeout for another.\<close>

lemma silent_client_dropped:
  assumes "\<forall>ev \<in> set evs. \<not> peer_active ev" and "Hb_Tick now \<in> set evs"
    and "last_ping_at s + (if is_auth_ok s then heartbeat_timeout (ls_healthy_config conf)
           else auth_timeout (ls_healthy_config conf)) < now"
  shows "\<exists>e t. conn_task conf pb on_auth evs s = Break e t"
proof -
  have "conn_overdue conf now s" using assms(3) by (simp add: conn_overdue_def)
  then have "\<exists>e t. run_loop (conn_step conf pb on_auth) evs s = Break e t"
    using conn_watchdog.silence_ends[OF assms(1,2)] by blast
  then show ?thesis by (auto simp: conn_task_def)
qed

lemma silent_client_dropped_witness:
  "\<exists>e t. conn_task one_client_conf plain_prost (\<lambda>_ _ _. True)
     [Hb_Tick (from_secs 1), Hb_Tick (from_secs 11)] (conn_init ''p'' 0 0 live_chan) = Break e t"
  by (rule silent_client_dropped[where now = "from_secs 11"])
    (auto simp: conn_init_def one_client_conf_def default_healthy_config_def)



text \<open>A broadcast reaches each connection once per name it is registered under, and no
  other; so a connection left registered under a second name is sent every packet twice.\<close>

lemma broadcast_counts:
  "mgmt_step (Send_All packet) m = Continue m' \<longleftrightarrow>
     m' = m\<lparr>broadcasts := (\<lambda>c. broadcasts m c
        @ replicate (length (filter (\<lambda>e. snd e = c) (clients m))) packet)\<rparr>"
proof -
  have "count (mset (map snd xs)) c = length (filter (\<lambda>e. snd e = c) xs)" for xs :: "(string \<times> conn_id) list" and c
    by (induction xs) auto
  then have "fold (broadcast_to packet) (map snd (clients m)) (broadcasts m)
      = (\<lambda>c. broadcasts m c @ replicate (length (filter (\<lambda>e. snd e = c) (clients m))) packet)"
    by (intro ext) (simp only: broadcast_fold)
  then show ?thesis by auto
qed

text \<open>C28: A published quotation arrives.  What \<open>send_quotation\<close> queues for the clients is a
  well-formed push whose encoding decodes to it, and whose body parses back, under its message
  type, to the quotation, as long as the encoded quotation stays below the 24-bit length.\<close>

theorem published_quotation_parses:
  assumes "deku_io rd wr" and "codecs_invert cs" and "length (encode_quotation cs q) < 2 ^ 24"
    and "sv_send_tx s = Some tx" and "chan_live tx"
  shows "\<exists>s' p bs. send_quotation (encode_quotation cs) q cmd (quotation_msg_type q) s = Inr s'
    \<and> sv_send_tx s' = Some (tx\<lparr>ch_sent := ch_sent tx @ [Push p]\<rparr>)
    \<and> packet_to_bytes wr (Push p) = Inr bs
    \<and> packet_from_bytes rd (bs @ rest, 0) = Inr ((rest, 0), Push p)
    \<and> parse_quotation cs (ps_msg_type p) (ps_body p) = Some q"
proof -
  let ?p = "quotation_push cmd (quotation_msg_type q) (encode_quotation cs q)"
  have wf: "wf_packet (Push ?p)" using assms(3) by (simp add: quotation_push_def wf_body_len_u32)
  have "parse_quotation cs (quotation_msg_type q) (encode_quotation cs q) = Some q"
    using assms(2) by (cases q) (simp_all add: codecs_invert_def)
  then show ?thesis
    using deku_io.packet_to_bytes_wire[OF assms(1) wf] deku_io.packet_from_bytes_iff[OF assms(1)] wf assms(4,5)
    by (auto simp: send_quotation_def send_packet_def flow_simps quotation_push_def)
qed

theorem published_quotation_parses_witness:
  "\<exists>s' p bs. send_quotation (encode_quotation plain_codecs) (Q_Trade [1, 2]) CmdSubTrades Msg_Trade
       (server_new one_client_conf\<lparr>sv_send_tx := Some live_chan\<rparr>) = Inr s'
    \<and> packet_to_bytes wr_msb (Push p) = Inr bs
    \<and> packet_from_bytes rd_msb (bs @ [], 0) = Inr (([], 0), Push p)
    \<and> parse_quotation plain_codecs (ps_msg_type p) (ps_body p) = Some (Q_Trade [1, 2])"
  using published_quotation_parses[OF msb.deku_io_axioms plain_codecs_invert, of "Q_Trade [1, 2]"
      "server_new one_client_conf\<lparr>sv_send_tx := Some live_chan\<rparr>" live_chan CmdSubTrades "[]"]
  by (auto simp: plain_codecs_def)

end
