(* ===== verification/Exchange.thy ===== *)
theory Exchange
  imports Client_Theorems Server_Theorems Wire_Laws
begin

text \<open>
  The client and the server as peers of one connection: how the authentication packet of the
  one is received by the other, and how a heartbeat goes forth and back.  What is needed of the
  protobuf codec is stated for the very messages that are exchanged: decoding gives back what
  was encoded.
\<close>

section \<open>Authentication\<close>

definition client_info :: "link_client_config \<Rightarrow> auth_info" where
  "client_info conf = \<lparr>user_name = lc_username conf, password = lc_password conf,
     client_name = lc_client_name conf\<rparr>"

abbreviation client_auth :: "link_client_config \<Rightarrow> auth_request" where
  "client_auth conf \<equiv> \<lparr>ar_auth_info = Some (client_info conf)\<rparr>"

lemma start_connection_auth:
  "auth_packet (start_connection conf pb se c) = Some (new_auth pb (request_id_gen c)
     (lc_username conf) (lc_password conf) (lc_client_name conf))"
  by (simp add: start_connection_def next_id_def)

lemma wire_roundtrip:
  assumes "deku_io rd wr" and "wf_packet p"
  shows "\<exists>bs. packet_to_bytes wr p = Inr bs \<and> packet_from_bytes rd (bs @ rest, 0) = Inr ((rest, 0), p)"
  using deku_io.packet_to_bytes_wire[OF assms] deku_io.packet_from_bytes_iff[OF assms(1)] assms(2)
  by auto

text \<open>
  The server's turn on the authentication packet of a client, and what the management task
  makes of the signal.
\<close>

lemma on_peer_auth:
  assumes "dec_auth_request pb (enc_auth_request pb (client_auth conf)) = Some (client_auth conf)"
  shows "\<exists>t. conn_step sconf pb on_auth
        (Peer_Packet now (new_auth pb i (lc_username conf) (lc_password conf) (lc_client_name conf))) s
      = Continue t
    \<and> conn_auth_info t = client_info conf
    \<and> conn_name t = lc_client_name conf @ ''@'' @ peer_address s \<and> last_ping_at t = now
    \<and> (if on_auth (peer_address s) (request_id_trim i) (client_info conf)
       then is_auth_ok t
         \<and> mgmt_signals t = mgmt_signals s @ [Conn_New (conn_name t) (this_conn s)]
       else is_auth_ok t = is_auth_ok s \<and> mgmt_signals t = mgmt_signals s)"
  using assms
  by (simp add: new_auth_def client_info_def on_peer_packet_def on_auth_request_def Let_def)

lemma registered_receives:
  assumes "mgmt_step (From_Conn (Conn_New n c)) m = Continue m'"
    and "mgmt_step (Send_All packet) m' = Continue m''"
  shows "map_of (clients m') n = Some c \<and> packet \<in> set (broadcasts m'' c)"
proof -
  have "m' = m\<lparr>clients := AList.update n c (clients m)\<rparr>" using assms(1) by simp
  then have reg: "map_of (clients m') n = Some c" by (simp add: update_conv')
  then have "c \<in> set (map snd (clients m'))" by (force dest: map_of_SomeD)
  then have "0 < count (mset (map snd (clients m'))) c" by (simp add: count_mset_gt_0)
  moreover have "m'' = m'\<lparr>broadcasts := fold (broadcast_to packet) (map snd (clients m')) (broadcasts m')\<rparr>"
    using assms(2) by simp
  ultimately show ?thesis using reg by (simp add: broadcast_fold del: mset_map)
qed

section \<open>Heartbeats\<close>

lemma i64_sub_ordered:
  assumes "0 \<le> sint b" and "sint b \<le> sint a"
  shows "i64_sub a b = Inr (a - b)"
  using assms sint_range_size[of a] by (simp add: i64_sub_def word_size)

section \<open>Properties\<close>

text \<open>C10: The authentication exchange.  The packet a client starts a connection with crosses the
  wire unchanged; the server's handler is asked about exactly the credentials and the client
  name of the client's configuration, under the trimmed request id; the connection takes the
  configured name at the peer's address.  If the handler accepts, the connection is
  authenticated and announced under that name, and once the management task has processed the
  announcement every broadcast reaches it; if not, nothing is announced and the connection goes
  on.\<close>

theorem auth_exchange:
  assumes "deku_io rd wr"
    and "dec_auth_request pb (enc_auth_request pb (client_auth conf)) = Some (client_auth conf)"
    and "length (enc_auth_request pb (client_auth conf)) < 2 ^ 24"
    and "auth_packet (start_connection conf pb se c) = Some p"
  shows "(\<exists>bs. packet_to_bytes wr p = Inr bs \<and> packet_from_bytes rd (bs @ rest, 0) = Inr ((rest, 0), p))
    \<and> (\<exists>t. conn_step sconf pb on_auth (Peer_Packet now p) s = Continue t
        \<and> conn_auth_info t = client_info conf
        \<and> conn_name t = lc_client_name conf @ ''@'' @ peer_address s
        \<and> (if on_auth (peer_address s) (request_id_trim (request_id_gen c)) (client_info conf)
           then is_auth_ok t \<and> mgmt_signals t = mgmt_signals s @ [Conn_New (conn_name t) (this_conn s)]
             \<and> (\<forall>m m' m'' q. mgmt_step (From_Conn (Conn_New (conn_name t) (this_conn s))) m = Continue m'
                  \<and> mgmt_step (Send_All q) m' = Continue m'' \<longrightarrow> q \<in> set (broadcasts m'' (this_conn s)))
           else is_auth_ok t = is_auth_ok s \<and> mgmt_signals t = mgmt_signals s))"
proof
  have p: "p = new_auth pb (request_id_gen c) (lc_username conf) (lc_password conf) (lc_client_name conf)"
    using assms(4) by (simp add: start_connection_auth)
  have "wf_packet p"
    using assms(3) request_id_trim_bound[of "request_id_gen c"]
    by (simp add: p new_auth_def client_info_def wf_body_len_u32 Let_def)
  then show "\<exists>bs. packet_to_bytes wr p = Inr bs \<and> packet_from_bytes rd (bs @ rest, 0) = Inr ((rest, 0), p)"
    by (rule wire_roundtrip[OF assms(1)])
  show "\<exists>t. conn_step sconf pb on_auth (Peer_Packet now p) s = Continue t
        \<and> conn_auth_info t = client_info conf
        \<and> conn_name t = lc_client_name conf @ ''@'' @ peer_address s
        \<and> (if on_auth (peer_address s) (request_id_trim (request_id_gen c)) (client_info conf)
           then is_auth_ok t \<and> mgmt_signals t = mgmt_signals s @ [Conn_New (conn_name t) (this_conn s)]
             \<and> (\<forall>m m' m'' q. mgmt_step (From_Conn (Conn_New (conn_name t) (this_conn s))) m = Continue m'
                  \<and> mgmt_step (Send_All q) m' = Continue m'' \<longrightarrow> q \<in> set (broadcasts m'' (this_conn s)))
           else is_auth_ok t = is_auth_ok s \<and> mgmt_signals t = mgmt_signals s)"
    using on_peer_auth[OF assms(2), of sconf on_auth now "request_id_gen c" s] registered_receives
    unfolding p by (metis (no_types, lifting))
qed

definition test_prost :: prost where
  "test_prost = plain_prost\<lparr>dec_auth_request := \<lambda>_. Some (client_auth test_conf),
     enc_heartbeat := \<lambda>h. [8], dec_heartbeat := \<lambda>_. Some \<lparr>hb_timestamp = 100\<rparr>\<rparr>"

theorem auth_exchange_witness:
  "\<exists>t. conn_step one_client_conf test_prost (\<lambda>_ _ _. True)
       (Peer_Packet 3 (new_auth test_prost 1 ''u'' ''p'' ''c'')) (conn_init ''h'' 0 0 live_chan) = Continue t
     \<and> conn_name t = ''c@h'' \<and> mgmt_signals t = [Conn_New ''c@h'' 0]"
proof -
  have codec: "dec_auth_request test_prost (enc_auth_request test_prost (client_auth test_conf))
      = Some (client_auth test_conf)" "length (enc_auth_request test_prost (client_auth test_conf)) < 2 ^ 24"
    by (simp_all add: test_prost_def plain_prost_def)
  have "auth_packet (start_connection test_conf test_prost lost_session (client_new live_chan))
      = Some (new_auth test_prost 1 ''u'' ''p'' ''c'')"
    by (simp add: start_connection_auth client_new_def test_conf_def)
  from auth_exchange[OF msb.deku_io_axioms codec this, of "[]" one_client_conf "\<lambda>_ _ _. True" 3
      "conn_init ''h'' 0 0 live_chan"]
  show ?thesis by (auto simp: test_conf_def conn_init_def)
qed



end
