(* ===== verification/Server_System.thy ===== *)
theory Server_System
  imports Server_Theorems
begin

text \<open>
  The tasks of \<open>serve_linker\<close> together: the accept loop, the main loops of the connections, and
  the management task, joined by the channel of connection signals.  A step is one turn of one
  task; the answers of the handler to authentications are the environment's.  A shutdown ends
  the management task and with it the accept loop; the tasks of the connections are detached.  Every reachable
  state keeps an invariant on names and identities, from which it follows that connections of
  different peers do not touch each other's registrations.
\<close>

section \<open>State and steps\<close>

record server_sys =
  ss_conns :: "conn_state list"
  ss_ended :: "conn_id list"
  ss_signals :: "conn_signal list"
  ss_mgmt :: mgmt_state
  ss_shut :: bool

definition sys_init :: server_sys where
  "sys_init = \<lparr>ss_conns = [], ss_ended = [], ss_signals = [], ss_mgmt = mgmt_init, ss_shut = False\<rparr>"

text \<open>What one turn put on the channel of connection signals.\<close>

definition new_signals :: "conn_state \<Rightarrow> conn_state \<Rightarrow> conn_signal list" where
  "new_signals s t = drop (length (mgmt_signals s)) (mgmt_signals t)"

inductive sys_step :: "link_server_config \<Rightarrow> prost \<Rightarrow> server_sys \<Rightarrow> server_sys \<Rightarrow> bool"
  for conf pb where
  accept: "\<not> ss_shut S \<Longrightarrow> listen_step (Accepted peer now tx) (ss_conns S) = Continue cs
    \<Longrightarrow> sys_step conf pb S (S\<lparr>ss_conns := cs\<rparr>)"
| turn: "i < length (ss_conns S) \<Longrightarrow> i \<notin> set (ss_ended S)
    \<Longrightarrow> ev = Exit_Signal \<longrightarrow> i \<in> set (exit_signals (ss_mgmt S))
    \<Longrightarrow> conn_step conf pb on_auth ev (ss_conns S ! i) = Continue t
    \<Longrightarrow> sys_step conf pb S (S\<lparr>ss_conns := (ss_conns S)[i := t],
          ss_signals := ss_signals S @ new_signals (ss_conns S ! i) t\<rparr>)"
| end_conn: "i < length (ss_conns S) \<Longrightarrow> i \<notin> set (ss_ended S)
    \<Longrightarrow> ev = Exit_Signal \<longrightarrow> i \<in> set (exit_signals (ss_mgmt S))
    \<Longrightarrow> conn_step conf pb on_auth ev (ss_conns S ! i) = Break e t
    \<Longrightarrow> sys_step conf pb S (S\<lparr>ss_conns := (ss_conns S)[i := conn_finish t],
          ss_ended := i # ss_ended S,
          ss_signals := ss_signals S @ new_signals (ss_conns S ! i) (conn_finish t)\<rparr>)"
| manage: "\<not> ss_shut S \<Longrightarrow> ss_signals S = sig # sigs \<Longrightarrow> mgmt_step (From_Conn sig) (ss_mgmt S) = Continue m
    \<Longrightarrow> sys_step conf pb S (S\<lparr>ss_signals := sigs, ss_mgmt := m\<rparr>)"
| serve: "\<not> ss_shut S \<Longrightarrow> \<forall>sig. ev \<noteq> From_Conn sig \<Longrightarrow> mgmt_step ev (ss_mgmt S) = Continue m
    \<Longrightarrow> sys_step conf pb S (S\<lparr>ss_mgmt := m\<rparr>)"
| shut: "\<not> ss_shut S \<Longrightarrow> mgmt_step ev (ss_mgmt S) = Break () m
    \<Longrightarrow> sys_step conf pb S (S\<lparr>ss_shut := True\<rparr>)"

inductive_cases sys_stepE: "sys_step conf pb S T"

inductive sys_reachable :: "link_server_config \<Rightarrow> prost \<Rightarrow> server_sys \<Rightarrow> bool" for conf pb where
  start: "sys_reachable conf pb sys_init"
| step: "sys_reachable conf pb S \<Longrightarrow> sys_step conf pb S T \<Longrightarrow> sys_reachable conf pb T"

section \<open>The invariant\<close>

text \<open>A name of a peer: its address behind the last at sign.\<close>

definition of_peer :: "string \<Rightarrow> string \<Rightarrow> bool" where
  "of_peer peer n \<longleftrightarrow> (\<exists>c. n = c @ ''@'' @ peer)"

lemma of_peer_unique:
  assumes "of_peer a n" and "of_peer b n" and "CHR ''@'' \<notin> set a" and "CHR ''@'' \<notin> set b"
  shows "a = b"
proof -
  have suffix: "takeWhile (\<lambda>x. x \<noteq> CHR ''@'') (rev (c @ ''@'' @ p)) = rev p"
    if "CHR ''@'' \<notin> set p" for c p
  proof -
    have "takeWhile (\<lambda>x. x \<noteq> CHR ''@'') (rev p @ CHR ''@'' # rev c)
        = rev p @ takeWhile (\<lambda>x. x \<noteq> CHR ''@'') (CHR ''@'' # rev c)"
      by (rule takeWhile_append2) (use that in auto)
    then show ?thesis by simp
  qed
  have "rev a = rev b" using assms suffix unfolding of_peer_def by metis
  then show ?thesis by simp
qed

fun signal_ok :: "server_sys \<Rightarrow> conn_signal \<Rightarrow> bool" where
  "signal_ok S (Conn_New n c) \<longleftrightarrow> c < length (ss_conns S) \<and> of_peer (peer_address (ss_conns S ! c)) n"
| "signal_ok S (Conn_Exit n) \<longleftrightarrow>
     (\<exists>c \<in> set (ss_ended S). c < length (ss_conns S) \<and> of_peer (peer_address (ss_conns S ! c)) n)"

definition conn_ok :: "conn_id \<Rightarrow> conn_state \<Rightarrow> bool" where
  "conn_ok i s \<longleftrightarrow> this_conn s = i \<and> of_peer (peer_address s) (conn_name s)"

definition sys_inv :: "server_sys \<Rightarrow> bool" where
  "sys_inv S \<longleftrightarrow> (\<forall>i < length (ss_conns S). conn_ok i (ss_conns S ! i))
     \<and> (\<forall>sig \<in> set (ss_signals S). signal_ok S sig)
     \<and> (\<forall>(n, c) \<in> set (clients (ss_mgmt S)). signal_ok S (Conn_New n c))
     \<and> distinct (map fst (clients (ss_mgmt S)))"

lemma conn_step_names:
  assumes "conn_step conf pb on_auth ev s = Continue t \<or> conn_step conf pb on_auth ev s = Break e t"
    and "conn_ok i s"
  shows "conn_ok i t \<and> peer_address t = peer_address s
    \<and> (\<exists>sigs. mgmt_signals t = mgmt_signals s @ sigs
        \<and> (\<forall>sig \<in> set sigs. \<exists>n. sig = Conn_New n i \<and> of_peer (peer_address s) n))"
  using assms
  by (cases "(conf, pb, on_auth, ev, s)" rule: conn_step.cases)
    (auto simp: conn_ok_def of_peer_def check_heartbeat_def on_peer_packet_def
      on_heartbeat_request_def on_auth_request_def forward_packet_def deferred_done_def
      callback_takes_def Let_def
      split: if_splits option.splits packet.splits list.splits)

lemma conn_finish_simps:
  "peer_address (conn_finish t) = peer_address t" "conn_name (conn_finish t) = conn_name t"
  "this_conn (conn_finish t) = this_conn t"
  "mgmt_signals (conn_finish t) = mgmt_signals t @ [Conn_Exit (conn_name t)]"
  by (simp_all add: conn_finish_def Let_def)

text \<open>A turn changes one connection and keeps its peer, so what was said of the others stays.\<close>

lemma signal_ok_mono:
  assumes "signal_ok S sig" and "length (ss_conns S) \<le> length (ss_conns T)"
    and "\<forall>i < length (ss_conns S). peer_address (ss_conns T ! i) = peer_address (ss_conns S ! i)"
    and "set (ss_ended S) \<subseteq> set (ss_ended T)"
  shows "signal_ok T sig"
proof (cases sig)
  case (Conn_Exit n)
  then obtain c where "c \<in> set (ss_ended S)" "c < length (ss_conns S)"
    "of_peer (peer_address (ss_conns S ! c)) n" using assms(1) by auto
  then show ?thesis using assms(2-4) Conn_Exit by (auto intro!: bexI[of _ c])
qed (use assms in auto)

lemma signal_ok_mgmt: "signal_ok (S\<lparr>ss_signals := sigs\<rparr>) sig = signal_ok S sig"
  "signal_ok (S\<lparr>ss_mgmt := m\<rparr>) sig = signal_ok S sig" "signal_ok (S\<lparr>ss_shut := b\<rparr>) sig = signal_ok S sig"
  by (cases sig; simp)+

lemma clients_update: "set (AList.update n c xs) \<subseteq> insert (n, c) (set xs)"
  by (induction xs) auto

lemma clients_delete: "set (AList.delete n xs) \<subseteq> set xs"
  by (auto simp: AList.delete_eq)

lemma mgmt_step_clients:
  assumes "mgmt_step ev m = Continue m'" and "distinct (map fst (clients m))"
  shows "distinct (map fst (clients m')) \<and> (\<forall>e \<in> set (clients m').
     e \<in> set (clients m) \<or> (\<exists>n c. ev = From_Conn (Conn_New n c) \<and> e = (n, c)))"
  using assms
  by (cases "(ev, m)" rule: mgmt_step.cases)
    (auto simp: AList.distinct_update AList.distinct_delete split: option.splits
      dest: subsetD[OF clients_update] subsetD[OF clients_delete])

lemma sys_inv_mgmt:
  assumes "sys_inv S" and "mgmt_step ev (ss_mgmt S) = Continue m"
    and "\<forall>n c. ev = From_Conn (Conn_New n c) \<longrightarrow> signal_ok S (Conn_New n c)"
    and "set sigs \<subseteq> set (ss_signals S)"
  shows "sys_inv (S\<lparr>ss_signals := sigs, ss_mgmt := m\<rparr>)"
proof -
  have old: "distinct (map fst (clients (ss_mgmt S)))"
    "\<forall>(n, c) \<in> set (clients (ss_mgmt S)). signal_ok S (Conn_New n c)"
    using assms(1) unfolding sys_inv_def by blast+
  then have "\<forall>(n, c) \<in> set (clients m). signal_ok S (Conn_New n c)"
    using mgmt_step_clients[OF assms(2)] assms(3) by blast
  then show ?thesis
    using mgmt_step_clients[OF assms(2) old(1)] assms(1,4)
    by (auto simp: sys_inv_def signal_ok_mgmt simp del: signal_ok.simps)
qed

lemma sys_inv_turn:
  assumes "sys_inv S" and "i < length (ss_conns S)" and "conn_ok i t"
    and "peer_address t = peer_address (ss_conns S ! i)" and "set (ss_ended S) \<subseteq> set ended"
    and "T = S\<lparr>ss_conns := (ss_conns S)[i := t], ss_ended := ended, ss_signals := ss_signals S @ sigs\<rparr>"
    and "\<forall>sig \<in> set sigs. signal_ok T sig"
  shows "sys_inv T"
proof -
  have "signal_ok T sig" if "signal_ok S sig" for sig
    using signal_ok_mono[OF that, of T] assms(2,4-6) by (auto simp: nth_list_update)
  then show ?thesis
    using assms by (fastforce simp: sys_inv_def nth_list_update simp del: signal_ok.simps)
qed

lemma sys_inv_accept:
  assumes "sys_inv S"
  shows "sys_inv (S\<lparr>ss_conns := ss_conns S @ [conn_init peer (length (ss_conns S)) now tx]\<rparr>)"
proof -
  let ?T = "S\<lparr>ss_conns := ss_conns S @ [conn_init peer (length (ss_conns S)) now tx]\<rparr>"
  have "conn_ok (length (ss_conns S)) (conn_init peer (length (ss_conns S)) now tx)"
    by (auto simp: conn_ok_def conn_init_def of_peer_def intro: exI[of _ "''waitAuth''"])
  moreover have "signal_ok ?T sig" if "signal_ok S sig" for sig
    using signal_ok_mono[OF that, of ?T] by (auto simp: nth_append)
  ultimately show ?thesis
    using assms by (fastforce simp: sys_inv_def nth_append less_Suc_eq simp del: signal_ok.simps)
qed

lemma sys_step_inv:
  assumes "sys_step conf pb S T" and "sys_inv S"
  shows "sys_inv T"
  using assms(1)
proof cases
  case (accept peer now tx cs)
  then show ?thesis using sys_inv_accept[OF assms(2)] by auto
next
  case (turn i ev on_auth t)
  have ok: "conn_ok i (ss_conns S ! i)" using assms(2) turn by (simp add: sys_inv_def)
  obtain sigs where "mgmt_signals t = mgmt_signals (ss_conns S ! i) @ sigs"
    "\<forall>sig \<in> set sigs. \<exists>n. sig = Conn_New n i \<and> of_peer (peer_address (ss_conns S ! i)) n"
    "conn_ok i t" "peer_address t = peer_address (ss_conns S ! i)"
    using conn_step_names[OF disjI1 ok] turn by blast
  then show ?thesis
    using turn by (intro sys_inv_turn[OF assms(2), of i t "ss_ended S" T sigs])
      (auto simp: new_signals_def)
next
  case (end_conn i ev on_auth e t)
  have ok: "conn_ok i (ss_conns S ! i)" using assms(2) end_conn by (simp add: sys_inv_def)
  obtain sigs where "mgmt_signals t = mgmt_signals (ss_conns S ! i) @ sigs"
    "\<forall>sig \<in> set sigs. \<exists>n. sig = Conn_New n i \<and> of_peer (peer_address (ss_conns S ! i)) n"
    "conn_ok i t" "peer_address t = peer_address (ss_conns S ! i)"
    using conn_step_names[OF disjI2 ok] end_conn by blast
  then show ?thesis
    using end_conn by (intro sys_inv_turn[OF assms(2), of i "conn_finish t" "i # ss_ended S" T
        "sigs @ [Conn_Exit (conn_name t)]"])
      (auto simp: new_signals_def conn_finish_simps conn_ok_def)
next
  case (manage sig sigs m)
  then show ?thesis
    using sys_inv_mgmt[OF assms(2) manage(4), of sigs] assms(2)
    by (auto simp: sys_inv_def simp del: signal_ok.simps)
next
  case (serve ev m)
  then show ?thesis using sys_inv_mgmt[OF assms(2) serve(4), of "ss_signals S"] by auto
next
  case (shut ev m)
  then show ?thesis using assms(2) by (simp add: sys_inv_def signal_ok_mgmt del: signal_ok.simps)
qed

lemma sys_reachable_inv: "sys_reachable conf pb S \<Longrightarrow> sys_inv S"
proof (induction rule: sys_reachable.induct)
  case start
  show ?case by (simp add: sys_inv_def sys_init_def mgmt_init_def)
next
  case (step S T)
  then show ?case by (blast intro: sys_step_inv)
qed

text \<open>
  A shutdown does not reach the connections: one that is up answers heartbeats as before, and no
  step of the server ends it unless it had been told to before.
\<close>

lemma connections_survive_shutdown:
  assumes "i < length (ss_conns S)" and "i \<notin> set (ss_ended S)" and "rq_command request = Heartbeat"
    and "chan_live (send_tx (ss_conns S ! i))"
  shows "\<exists>T. sys_step conf pb S T \<and> ss_ended T = ss_ended S \<and> ss_shut T = ss_shut S
    \<and> ch_sent (send_tx (ss_conns T ! i))
        = ch_sent (send_tx (ss_conns S ! i)) @ [new_heartbeat_response request]"
proof -
  obtain t where t: "conn_step conf pb (\<lambda>_ _ _. True) (Peer_Packet now (Request request)) (ss_conns S ! i) = Continue t"
    "ch_sent (send_tx t) = ch_sent (send_tx (ss_conns S ! i)) @ [new_heartbeat_response request]"
    using assms(3,4) by (simp add: on_peer_packet_def on_heartbeat_request_def flow_simps)
  show ?thesis
    using sys_step.turn[OF assms(1,2) _ t(1)] t(2) assms(1)
    by (fastforce intro!: exI[of _ "S\<lparr>ss_conns := (ss_conns S)[i := t],
      ss_signals := ss_signals S @ new_signals (ss_conns S ! i) t\<rparr>"])
qed

section \<open>Properties\<close>

text \<open>C9: Peers do not touch each other's registrations.  In every reachable state of the server's
  tasks, under any interleaving, the clients map has one entry per name and each names the
  address of the connection it belongs to; and when a step takes a name from a connection, by
  removing or replacing the entry, either the server was told to close that client, or the step
  is the management task processing a signal of a connection with the same peer address.\<close>

theorem registrations_by_peer:
  assumes "sys_reachable conf pb S" and "sys_step conf pb S T"
    and "\<forall>s \<in> set (ss_conns S). CHR ''@'' \<notin> set (peer_address s)"
    and "map_of (clients (ss_mgmt S)) n = Some c" and "map_of (clients (ss_mgmt T)) n \<noteq> Some c"
  shows "c < length (ss_conns S) \<and> of_peer (peer_address (ss_conns S ! c)) n
    \<and> distinct (map fst (clients (ss_mgmt S)))
    \<and> (exit_signals (ss_mgmt T) = exit_signals (ss_mgmt S) @ [c]
       \<or> (\<exists>i < length (ss_conns S). peer_address (ss_conns S ! i) = peer_address (ss_conns S ! c)
            \<and> (\<exists>sig sigs. ss_signals S = sig # sigs
                 \<and> (sig = Conn_New n i \<or> sig = Conn_Exit n \<and> i \<in> set (ss_ended S)))))"
proof -
  have inv: "sys_inv S" using assms(1) by (rule sys_reachable_inv)
  have c: "signal_ok S (Conn_New n c)"
    using inv map_of_SomeD[OF assms(4)] unfolding sys_inv_def by blast
  have same: "peer_address (ss_conns S ! i) = peer_address (ss_conns S ! c)"
    if "i < length (ss_conns S)" "of_peer (peer_address (ss_conns S ! i)) n" for i
    using of_peer_unique[OF that(2)] c that(1) assms(3) by auto
  have "exit_signals (ss_mgmt T) = exit_signals (ss_mgmt S) @ [c]
       \<or> (\<exists>i < length (ss_conns S). peer_address (ss_conns S ! i) = peer_address (ss_conns S ! c)
            \<and> (\<exists>sig sigs. ss_signals S = sig # sigs
                 \<and> (sig = Conn_New n i \<or> sig = Conn_Exit n \<and> i \<in> set (ss_ended S))))"
    using assms(2)
  proof cases
    case (manage sig sigs m)
    have ok: "signal_ok S sig" using inv manage(3) by (auto simp: sys_inv_def)
    show ?thesis
    proof (cases sig)
      case (Conn_New k i)
      then have "k = n" using manage assms(4,5) by (auto simp: update_conv split: if_splits)
      then show ?thesis using Conn_New ok same[of i] manage(3) by auto
    next
      case (Conn_Exit k)
      then have "k = n" using manage assms(4,5) by (auto simp: delete_conv' split: if_splits)
      then show ?thesis using Conn_Exit ok same manage(3) by fastforce
    qed
  next
    case (serve ev m)
    then show ?thesis
      using assms(4,5) by (cases "(ev, ss_mgmt S)" rule: mgmt_step.cases)
        (auto simp: delete_conv' split: option.splits if_splits)
  qed (use assms(4,5) in auto)
  with c inv show ?thesis by (simp add: sys_inv_def)
qed

definition served_conn :: conn_state where
  "served_conn = ctl_state (conn_step one_client_conf name_prost (\<lambda>_ _ _. True)
     (Peer_Packet 1 (auth_as [1])) (conn_init ''p'' 0 0 live_chan))"

lemma served_conn_simps:
  "conn_step one_client_conf name_prost (\<lambda>_ _ _. True) (Peer_Packet 1 (auth_as [1]))
     (conn_init ''p'' 0 0 live_chan) = Continue served_conn"
  "mgmt_signals served_conn = [Conn_New ''a@p'' 0]" "conn_name served_conn = ''a@p''"
  "peer_address served_conn = ''p''"
  by (simp_all add: served_conn_def on_peer_packet_def on_auth_request_def auth_as_def
      new_request_def name_prost_def conn_init_def)

definition one_left :: server_sys where
  "one_left = \<lparr>ss_conns = [conn_finish served_conn], ss_ended = [0],
     ss_signals = [Conn_Exit ''a@p''], ss_mgmt = mgmt_init\<lparr>clients := [(''a@p'', 0)]\<rparr>,
     ss_shut = False\<rparr>"

lemma one_left_reachable: "sys_reachable one_client_conf name_prost one_left"
proof -
  let ?step = "sys_step one_client_conf name_prost"
  let ?S1 = "sys_init\<lparr>ss_conns := [conn_init ''p'' 0 0 live_chan]\<rparr>"
  let ?S2 = "?S1\<lparr>ss_conns := [served_conn], ss_signals := [Conn_New ''a@p'' 0]\<rparr>"
  let ?S3 = "?S2\<lparr>ss_signals := [], ss_mgmt := mgmt_init\<lparr>clients := [(''a@p'', 0)]\<rparr>\<rparr>"
  have "?step sys_init ?S1"
    using sys_step.accept[of sys_init "''p''" 0 live_chan] by (simp add: sys_init_def)
  moreover have "?step ?S1 ?S2"
    using sys_step.turn[of 0 ?S1 "Peer_Packet 1 (auth_as [1])" one_client_conf name_prost
        "\<lambda>_ _ _. True" served_conn] served_conn_simps
    by (simp add: sys_init_def new_signals_def conn_init_def)
  moreover have "?step ?S2 ?S3"
    using sys_step.manage[of ?S2 "Conn_New ''a@p'' 0" "[]"] by (simp add: sys_init_def mgmt_init_def)
  moreover have "?step ?S3 one_left"
    using sys_step.end_conn[of 0 ?S3 Peer_Closed one_client_conf name_prost
        "\<lambda>_ _ _. True" Peer_Recv_Closed served_conn]
    by (simp add: sys_init_def new_signals_def conn_finish_simps served_conn_simps one_left_def)
  ultimately show ?thesis by (meson sys_reachable.intros)
qed

theorem registrations_by_peer_witness:
  "of_peer ''p'' ''a@p'' \<and> (\<exists>T. sys_step one_client_conf name_prost one_left T
     \<and> map_of (clients (ss_mgmt T)) ''a@p'' = None)"
proof -
  let ?T = "one_left\<lparr>ss_signals := [], ss_mgmt := mgmt_init\<rparr>"
  have step: "sys_step one_client_conf name_prost one_left ?T"
    using sys_step.manage[of one_left "Conn_Exit ''a@p''" "[]" mgmt_init one_client_conf name_prost]
    by (simp add: one_left_def mgmt_init_def AList.delete_eq)
  have "of_peer (peer_address (ss_conns one_left ! 0)) ''a@p''"
    using registrations_by_peer[OF one_left_reachable step, of "''a@p''" 0]
    by (simp add: one_left_def mgmt_init_def conn_finish_simps served_conn_simps)
  then show ?thesis
    using step by (auto simp: one_left_def mgmt_init_def conn_finish_simps served_conn_simps)
qed

end
