(* ===== verification/Broadcast.thy ===== *)
theory Broadcast
  imports Link_Prelude "HOL-Library.Sublist"
begin

text \<open>
  The receiving end of a broadcast channel, as the callback loop of a server connection and the
  example consumers use it.  Its operations are a parameter: \<open>bc_publish\<close> is a message arriving
  at this receiver, \<open>bc_recv\<close> one call of \<open>recv\<close>.  The locale \<open>lossy_receiver\<close> states what is
  documented of them: messages come in order, and when the receiver falls behind by more than
  the capacity, the oldest are skipped and their number is reported; the channel closes only when
  nothing is left.  Its client lemma accounts
  for every message of any run.  The instance keeps the messages the receiver has not seen.
\<close>

section \<open>The contract\<close>

datatype 'a bc_received = Received 'a | Lagged nat | Pending | Closed

record ('r, 'a) bc_ops =
  bc_publish :: "'a \<Rightarrow> 'r \<Rightarrow> 'r"
  bc_recv :: "'r \<Rightarrow> 'a bc_received \<times> 'r"

locale lossy_receiver =
  fixes bc :: "('r, 'a) bc_ops"
    and owed :: "'r \<Rightarrow> 'a list"
    and capacity :: nat
  assumes publish: "owed (bc_publish bc x r) = owed r @ [x]"
    and received: "bc_recv bc r = (Received x, r') \<Longrightarrow> owed r = x # owed r'"
    and lagged: "bc_recv bc r = (Lagged n, r') \<Longrightarrow>
      0 < n \<and> n + capacity \<le> length (owed r) \<and> owed r' = drop n (owed r)"
    and pending: "bc_recv bc r = (Pending, r') \<Longrightarrow> owed r = [] \<and> owed r' = []"
    and closed: "bc_recv bc r = (Closed, r') \<Longrightarrow> owed r = [] \<and> owed r' = []"
begin

text \<open>
  The bookkeeping of one receiver: what was received so far, how many were reported as
  skipped, and what it is owed account for what was published.
\<close>

definition accounts :: "'a list \<Rightarrow> 'a list \<Rightarrow> nat \<Rightarrow> 'r \<Rightarrow> bool" where
  "accounts published got skipped r \<longleftrightarrow> subseq (got @ owed r) published
     \<and> length published = length got + skipped + length (owed r)"

lemma accounts_publish:
  "accounts published got skipped r \<Longrightarrow> accounts (published @ [x]) got skipped (bc_publish bc x r)"
  by (simp add: accounts_def publish flip: append_assoc)

lemma accounts_received:
  "accounts published got skipped r \<Longrightarrow> bc_recv bc r = (Received x, r')
    \<Longrightarrow> accounts published (got @ [x]) skipped r'"
  by (simp add: accounts_def received)

lemma accounts_lagged:
  assumes "accounts published got skipped r" and "bc_recv bc r = (Lagged n, r')"
  shows "accounts published got (skipped + n) r'"
proof -
  have "subseq (got @ drop n (owed r)) (got @ owed r)"
    by (simp add: suffix_drop suffix_imp_subseq list_emb_append_mono)
  then show ?thesis
    using assms(1) lagged[OF assms(2)] subseq_order.order_trans unfolding accounts_def by fastforce
qed

lemma accounts_idle:
  "accounts published got skipped r \<Longrightarrow> bc_recv bc r = (Pending, r') \<or> bc_recv bc r = (Closed, r')
    \<Longrightarrow> accounts published got skipped r'"
  using pending[of r r'] closed[of r r'] by (auto simp: accounts_def)

text \<open>Nothing was skipped: what was received is a prefix of what was published.\<close>

lemma accounts_lossless:
  assumes "accounts published got 0 r" shows "published = got @ owed r"
  using assms subseq_same_length[of "got @ owed r" published] by (simp add: accounts_def)

end

section \<open>The instance\<close>

text \<open>
  A receiver as the list of messages published since its position, of which the channel keeps
  the last \<open>cap\<close>; the channel is closed once its senders are gone.
\<close>

definition ring_recv :: "nat \<Rightarrow> bool \<Rightarrow> 'a list \<Rightarrow> 'a bc_received \<times> 'a list" where
  "ring_recv cap senders r =
     (if cap < length r then (Lagged (length r - cap), drop (length r - cap) r)
      else case r of [] \<Rightarrow> (if senders then Pending else Closed, []) | x # xs \<Rightarrow> (Received x, xs))"

definition ring :: "nat \<Rightarrow> bool \<Rightarrow> ('a list, 'a) bc_ops" where
  "ring cap senders = \<lparr>bc_publish = \<lambda>x r. r @ [x], bc_recv = ring_recv cap senders\<rparr>"

interpretation ring: lossy_receiver "ring cap senders" id cap for cap senders
  by unfold_locales (auto simp: ring_def ring_recv_def split: if_splits list.splits)

lemmas ring_simps = ring_def ring_recv_def

end
