(* ===== verification/Server_Callbacks.thy ===== *)
theory Server_Callbacks
  imports Server_System Broadcast
begin

text \<open>
  One server connection as its tasks run it: the main loop, the callback loop behind the channel
  of received packets, the tasks that wait for room on that channel, the tasks in which handler
  methods run, and the broadcast receiver.  A step is one turn of one of them, in any order.
  The invariant accounts for every packet and shows that the callback loop outlives the main
  loop.  The handler's methods are taken to return; one that panics ends the task it runs in.
\<close>

section \<open>State and steps\<close>

text \<open>
  Besides the state of the tasks: what the peer has sent, what was broadcast to this connection
  and how many broadcasts the receiver has reported as skipped.
\<close>

record 'r conn_sys =
  cy_main :: conn_state
  cy_ended :: bool
  cy_cb :: callback_state
  cy_cb_ended :: bool
  cy_rx :: 'r
  cy_from_peer :: "packet list"
  cy_published :: "packet list"
  cy_skipped :: nat

definition conn_sys_init :: "string \<Rightarrow> conn_id \<Rightarrow> nat \<Rightarrow> packet chan \<Rightarrow> 'r \<Rightarrow> 'r conn_sys" where
  "conn_sys_init peer c now tx r =
     \<lparr>cy_main = conn_init peer c now tx, cy_ended = False, cy_cb = callback_init peer,
      cy_cb_ended = False, cy_rx = r, cy_from_peer = [], cy_published = [], cy_skipped = 0\<rparr>"

fun peer_packets :: "conn_event \<Rightarrow> packet list" where
  "peer_packets (Peer_Packet now p) = [p]"
| "peer_packets _ = []"

text \<open>
  A task that waits for room goes on after the main loop has ended.  A turn that sends on the
  channel has found room: an awaited send completes only then.
\<close>

fun main_event :: "bool \<Rightarrow> conn_event \<Rightarrow> bool" where
  "main_event ended (Deferred_Done i) = True"
| "main_event ended Callback_Takes = False"
| "main_event ended Callback_Gone = False"
| "main_event ended _ = (\<not> ended)"

inductive conn_sys_step ::
    "link_server_config \<Rightarrow> prost \<Rightarrow> ('r, packet) bc_ops \<Rightarrow> 'r conn_sys \<Rightarrow> 'r conn_sys \<Rightarrow> bool"
  for conf pb bc where
  turn: "main_event (cy_ended S) ev \<Longrightarrow> conn_step conf pb on_auth ev (cy_main S) = Continue t
    \<Longrightarrow> length (recved_queue t) \<le> process_chan_size (ls_channel_config conf)
    \<Longrightarrow> conn_sys_step conf pb bc S
          (S\<lparr>cy_main := t, cy_from_peer := cy_from_peer S @ peer_packets ev\<rparr>)"
| finish: "main_event (cy_ended S) ev \<Longrightarrow> conn_step conf pb on_auth ev (cy_main S) = Break e t
    \<Longrightarrow> conn_sys_step conf pb bc S
          (S\<lparr>cy_main := conn_finish t, cy_ended := True,
             cy_from_peer := cy_from_peer S @ peer_packets ev\<rparr>)"
| take: "\<not> cy_cb_ended S \<Longrightarrow> recved_queue (cy_main S) = p # ps
    \<Longrightarrow> callback_step pb (Cb_Packet p) (cy_cb S) = Continue cb
    \<Longrightarrow> conn_sys_step conf pb bc S (S\<lparr>cy_main := callback_takes (cy_main S), cy_cb := cb\<rparr>)"
| take_fails: "\<not> cy_cb_ended S \<Longrightarrow> recved_queue (cy_main S) = p # ps
    \<Longrightarrow> callback_step pb (Cb_Packet p) (cy_cb S) = Break e cb
    \<Longrightarrow> conn_sys_step conf pb bc S
          (S\<lparr>cy_main := (callback_takes (cy_main S))\<lparr>recved_open := False\<rparr>, cy_cb := cb,
             cy_cb_ended := True\<rparr>)"
| stopped: "\<not> cy_cb_ended S \<Longrightarrow> cy_ended S \<Longrightarrow> recved_queue (cy_main S) = [] \<Longrightarrow> deferred (cy_main S) = []
    \<Longrightarrow> callback_step pb Cb_Stopped (cy_cb S) = Break e cb
    \<Longrightarrow> conn_sys_step conf pb bc S
          (S\<lparr>cy_main := (cy_main S)\<lparr>recved_open := False\<rparr>, cy_cb := cb, cy_cb_ended := True\<rparr>)"
| broadcast: "\<not> cy_cb_ended S \<Longrightarrow> bc_recv bc (cy_rx S) = (Received p, r)
    \<Longrightarrow> callback_step pb (Cb_Broadcast p) (cy_cb S) = Continue cb
    \<Longrightarrow> conn_sys_step conf pb bc S (S\<lparr>cy_rx := r, cy_cb := cb\<rparr>)"
| lag: "\<not> cy_cb_ended S \<Longrightarrow> bc_recv bc (cy_rx S) = (Lagged n, r)
    \<Longrightarrow> callback_step pb Cb_Lagged (cy_cb S) = Continue cb
    \<Longrightarrow> conn_sys_step conf pb bc S
          (S\<lparr>cy_rx := r, cy_cb := cb, cy_skipped := cy_skipped S + n\<rparr>)"
| no_senders: "\<not> cy_cb_ended S \<Longrightarrow> cy_ended S \<Longrightarrow> bc_recv bc (cy_rx S) = (Closed, r)
    \<Longrightarrow> callback_step pb Cb_Broadcast_End (cy_cb S) = Break e cb
    \<Longrightarrow> conn_sys_step conf pb bc S
          (S\<lparr>cy_rx := r, cy_main := (cy_main S)\<lparr>recved_open := False\<rparr>, cy_cb := cb,
             cy_cb_ended := True\<rparr>)"
| handle: "conn_sys_step conf pb bc S (S\<lparr>cy_cb := run_spawned i (cy_cb S)\<rparr>)"
| publish: "Conn_New n (this_conn (cy_main S)) \<in> set (mgmt_signals (cy_main S))
    \<Longrightarrow> conn_sys_step conf pb bc S
          (S\<lparr>cy_rx := bc_publish bc p (cy_rx S), cy_published := cy_published S @ [p]\<rparr>)"

inductive_cases conn_sys_stepE: "conn_sys_step conf pb bc S T"

inductive conn_sys_reachable ::
    "link_server_config \<Rightarrow> prost \<Rightarrow> ('r, packet) bc_ops \<Rightarrow> 'r conn_sys \<Rightarrow> 'r conn_sys \<Rightarrow> bool"
  for conf pb bc S where
  start: "conn_sys_reachable conf pb bc S S"
| step: "conn_sys_reachable conf pb bc S T \<Longrightarrow> conn_sys_step conf pb bc T U
    \<Longrightarrow> conn_sys_reachable conf pb bc S U"

section \<open>The way of a packet\<close>

text \<open>What the handler's methods for data are there for, and the call that each packet becomes.\<close>

fun for_handler :: "packet \<Rightarrow> bool" where
  "for_handler (Request r) \<longleftrightarrow> rq_command r \<noteq> Heartbeat \<and> rq_command r \<noteq> Auth"
| "for_handler _ = True"

fun data_call :: "packet \<Rightarrow> handler_call" where
  "data_call (Request r) = H_Request r"
| "data_call (Response r) = H_Response r"
| "data_call (Push p) = H_Push p"

fun is_send :: "handler_call \<Rightarrow> bool" where
  "is_send (H_Send p) = True"
| "is_send _ = False"

definition data_calls :: "packet list \<Rightarrow> handler_call multiset" where
  "data_calls ps = mset (map data_call (filter for_handler ps))"

lemma data_calls_append [simp]: "data_calls (ps @ qs) = data_calls ps + data_calls qs"
  by (simp add: data_calls_def)

lemma data_calls_simps [simp]:
  "data_calls [] = {#}"
  "data_calls (p # ps) = (if for_handler p then add_mset (data_call p) (data_calls ps) else data_calls ps)"
  by (simp_all add: data_calls_def)

definition calls_made :: "callback_state \<Rightarrow> handler_call multiset" where
  "calls_made cb = mset (filter (\<lambda>h. \<not> is_send h) (handler_calls cb))"

definition sends_made :: "callback_state \<Rightarrow> packet list" where
  "sends_made cb = List.map_filter (\<lambda>h. case h of H_Send p \<Rightarrow> Some p | _ \<Rightarrow> None) (handler_calls cb)"

text \<open>
  Heartbeats are never on the channel, and authentication requests were decoded before they
  were put there.
\<close>

fun decodes :: "prost \<Rightarrow> packet \<Rightarrow> bool" where
  "decodes pb (Request r) \<longleftrightarrow> rq_command r \<noteq> Heartbeat
     \<and> (rq_command r = Auth \<longrightarrow> dec_auth_request pb (rq_body r) \<noteq> None)"
| "decodes pb _ = True"

definition waiting :: "conn_state \<Rightarrow> packet list" where
  "waiting s = recved_queue s @ deferred s"

definition queue_ok :: "prost \<Rightarrow> conn_state \<Rightarrow> bool" where
  "queue_ok pb s \<longleftrightarrow> (\<forall>p \<in> set (waiting s). decodes pb p)"

lemma data_calls_remove_nth:
  "i < length xs \<Longrightarrow> data_calls (take i xs) + data_calls (drop (Suc i) xs)
     + data_calls [xs ! i] = data_calls xs"
  using arg_cong[OF id_take_nth_drop, of i xs data_calls] by simp

lemma deferred_done_kept:
  "set (waiting (deferred_done conf i s)) \<subseteq> set (waiting s)"
  "recved_open (deferred_done conf i s) = recved_open s"
  "queue_ok pb s \<Longrightarrow> queue_ok pb (deferred_done conf i s)"
proof -
  show sub: "set (waiting (deferred_done conf i s)) \<subseteq> set (waiting s)"
    by (auto simp: deferred_done_def waiting_def Let_def dest: in_set_takeD in_set_dropD)
  show "recved_open (deferred_done conf i s) = recved_open s" by (simp add: deferred_done_def Let_def)
  show "queue_ok pb (deferred_done conf i s)" if "queue_ok pb s"
    using that sub unfolding queue_ok_def by blast
qed

lemma deferred_done_waiting:
  "recved_open s \<Longrightarrow> data_calls (waiting (deferred_done conf i s)) = data_calls (waiting s)"
  using data_calls_remove_nth[of i "deferred s"]
  by (auto simp: deferred_done_def waiting_def Let_def add_ac)

lemma conn_step_waiting:
  assumes "conn_step conf pb on_auth ev s = Continue t" and "recved_open s"
    and "main_event ended ev" and "queue_ok pb s"
  shows "recved_open t \<and> queue_ok pb t
    \<and> data_calls (waiting t) = data_calls (waiting s) + data_calls (peer_packets ev)"
proof (cases "\<exists>i. ev = Deferred_Done i")
  case True
  then show ?thesis
    using assms by (auto simp: deferred_done_kept deferred_done_waiting)
next
  case False
  then show ?thesis
    using assms
    by (cases "(conf, pb, on_auth, ev, s)" rule: conn_step.cases)
      (auto simp: check_heartbeat_def on_peer_packet_def on_heartbeat_request_def on_auth_request_def
        forward_packet_def Let_def queue_ok_def waiting_def
        split: if_splits option.splits packet.splits)
qed

lemma conn_step_break_waiting:
  assumes "conn_step conf pb on_auth ev s = Break e t" and "main_event ended ev"
  shows "recved_open t = recved_open s \<and> waiting t = waiting s \<and> data_calls (peer_packets ev) = {#}
    \<and> \<not> ended"
  using assms
  by (cases "(conf, pb, on_auth, ev, s)" rule: conn_step.cases)
    (auto simp: check_heartbeat_def on_peer_packet_def on_heartbeat_request_def on_auth_request_def
      forward_packet_def Let_def waiting_def split: if_splits option.splits packet.splits)

text \<open>A turn of the callback loop on a packet.\<close>

lemma callback_takes_waiting:
  assumes "recved_queue s = p # ps"
  shows "recved_open (callback_takes s) = recved_open s \<and> waiting s = p # waiting (callback_takes s)"
  using assms by (simp add: callback_takes_def waiting_def)

lemma callback_packet:
  assumes "decodes pb p"
  shows "\<exists>cb'. callback_step pb (Cb_Packet p) cb = Continue cb'
    \<and> mset (spawned cb') = mset (spawned cb) + data_calls [p] \<and> handler_calls cb' = handler_calls cb"
proof (cases p)
  case (Request r)
  then show ?thesis
    using assms by (cases "rq_command r = Auth") (auto simp: spawn_handler_def Let_def)
qed (simp_all add: spawn_handler_def)

lemma run_spawned_calls:
  assumes "\<forall>h \<in> set (spawned cb). \<not> is_send h"
  shows "calls_made (run_spawned i cb) + mset (spawned (run_spawned i cb))
      = calls_made cb + mset (spawned cb)
    \<and> sends_made (run_spawned i cb) = sends_made cb
    \<and> set (spawned (run_spawned i cb)) \<subseteq> set (spawned cb)"
proof (cases "i < length (spawned cb)")
  case True
  then have "\<not> is_send (spawned cb ! i)" using assms by simp
  then have "sends_made (run_spawned i cb) = sends_made cb"
    by (cases "spawned cb ! i") (simp_all add: sends_made_def run_spawned_def List.map_filter_def)
  then show ?thesis
    using True \<open>\<not> is_send (spawned cb ! i)\<close> mset_remove_nth[OF True]
    by (auto simp: run_spawned_def calls_made_def dest: in_set_takeD in_set_dropD)
qed (simp add: run_spawned_def)

section \<open>The invariant\<close>

definition packets_inv :: "link_server_config \<Rightarrow> prost \<Rightarrow> 'r conn_sys \<Rightarrow> bool" where
  "packets_inv conf pb S \<longleftrightarrow>
     recved_open (cy_main S) = (\<not> cy_cb_ended S) \<and> (cy_cb_ended S \<longrightarrow> cy_ended S)
     \<and> queue_ok pb (cy_main S) \<and> (\<forall>h \<in> set (spawned (cy_cb S)). \<not> is_send h)
     \<and> length (recved_queue (cy_main S)) \<le> process_chan_size (ls_channel_config conf)
     \<and> calls_made (cy_cb S) + mset (spawned (cy_cb S)) \<subseteq># data_calls (cy_from_peer S)
     \<and> (\<not> cy_cb_ended S \<longrightarrow> data_calls (cy_from_peer S)
           = calls_made (cy_cb S) + mset (spawned (cy_cb S)) + data_calls (waiting (cy_main S)))"

lemma packets_inv_turn:
  assumes "packets_inv conf pb S" and "main_event (cy_ended S) ev"
    and "conn_step conf pb on_auth ev (cy_main S) = Continue t"
    and "length (recved_queue t) \<le> process_chan_size (ls_channel_config conf)"
  shows "packets_inv conf pb (S\<lparr>cy_main := t, cy_from_peer := cy_from_peer S @ peer_packets ev\<rparr>)"
proof (cases "cy_cb_ended S")
  case True
  then obtain i where ev: "ev = Deferred_Done i"
    using assms(1,2) by (cases ev) (auto simp: packets_inv_def)
  then show ?thesis
    using assms(1,3,4) True by (auto simp: packets_inv_def deferred_done_kept)
next
  case False
  then have "recved_open (cy_main S)" "queue_ok pb (cy_main S)" using assms(1) by (simp_all add: packets_inv_def)
  from conn_step_waiting[OF assms(3) this(1) assms(2) this(2)] show ?thesis
    using False assms(1,4) by (auto simp: packets_inv_def add_ac)
qed

lemma packets_inv_finish:
  assumes "packets_inv conf pb S" and "main_event (cy_ended S) ev"
    and "conn_step conf pb on_auth ev (cy_main S) = Break e t"
  shows "packets_inv conf pb (S\<lparr>cy_main := conn_finish t, cy_ended := True,
     cy_from_peer := cy_from_peer S @ peer_packets ev\<rparr>)"
proof -
  have "recved_open (conn_finish t) = recved_open t" "waiting (conn_finish t) = waiting t"
    "recved_queue (conn_finish t) = recved_queue t"
    by (simp_all add: conn_finish_def waiting_def Let_def)
  moreover have "recved_queue t = recved_queue (cy_main S)"
    using assms(3) by (cases "(conf, pb, on_auth, ev, cy_main S)" rule: conn_step.cases)
      (auto simp: check_heartbeat_def on_peer_packet_def on_heartbeat_request_def on_auth_request_def
        forward_packet_def Let_def split: if_splits option.splits packet.splits)
  ultimately show ?thesis
    using conn_step_break_waiting[OF assms(3,2)] assms(1) by (auto simp: packets_inv_def queue_ok_def)
qed

lemma packets_inv_take:
  assumes "packets_inv conf pb S" and "\<not> cy_cb_ended S" and "recved_queue (cy_main S) = p # ps"
  shows "\<exists>cb. callback_step pb (Cb_Packet p) (cy_cb S) = Continue cb
    \<and> packets_inv conf pb (S\<lparr>cy_main := callback_takes (cy_main S), cy_cb := cb\<rparr>)"
proof -
  note w = callback_takes_waiting[OF assms(3)]
  have "decodes pb p" using assms(1,3) by (simp add: packets_inv_def queue_ok_def waiting_def)
  then obtain cb where cb: "callback_step pb (Cb_Packet p) (cy_cb S) = Continue cb"
    "mset (spawned cb) = mset (spawned (cy_cb S)) + data_calls [p]"
    "handler_calls cb = handler_calls (cy_cb S)"
    using callback_packet by blast
  have "\<not> is_send h" if "h \<in># data_calls [p]" for h
    using that by (cases p) (auto split: if_splits)
  then have "\<forall>h \<in> set (spawned cb). \<not> is_send h"
    using cb(2) assms(1) by (auto simp: packets_inv_def simp flip: set_mset_mset)
  then show ?thesis
    using assms w cb by (auto simp: packets_inv_def queue_ok_def calls_made_def callback_takes_def)
qed

lemma packets_inv_step:
  assumes "conn_sys_step conf pb bc S T" and "packets_inv conf pb S"
  shows "packets_inv conf pb T"
  using assms(1)
proof cases
  case (turn ev on_auth t)
  then show ?thesis using packets_inv_turn[OF assms(2)] by simp
next
  case (finish ev on_auth e t)
  then show ?thesis using packets_inv_finish[OF assms(2)] by simp
next
  case (take p ps cb)
  then show ?thesis using packets_inv_take[OF assms(2) take(2,3)] by auto
next
  case (take_fails p ps e cb)
  then show ?thesis using packets_inv_take[OF assms(2) take_fails(2,3)] by auto
next
  case (handle i)
  then show ?thesis
    using assms(2) run_spawned_calls[of "cy_cb S" i]
    by (auto simp: packets_inv_def dest: subsetD)
qed (use assms(2) in \<open>auto simp: packets_inv_def queue_ok_def waiting_def calls_made_def call_handler_def\<close>)

text \<open>
  What the handler was given to send, against what was broadcast: a connection is given
  broadcasts only once it has announced itself.
\<close>

definition announced :: "conn_state \<Rightarrow> bool" where
  "announced s \<longleftrightarrow> (\<exists>n. Conn_New n (this_conn s) \<in> set (mgmt_signals s))"

text \<open>A connection that was broadcast to has announced itself, and only accepted ones do.\<close>

definition admitted :: "packet list \<Rightarrow> conn_state \<Rightarrow> bool" where
  "admitted published s \<longleftrightarrow> (published \<noteq> [] \<longrightarrow> announced s) \<and> (announced s \<longrightarrow> is_auth_ok s)"

lemma admitted_step:
  assumes "conn_step conf pb on_auth ev s = Continue t \<or> conn_step conf pb on_auth ev s = Break e t"
    and "admitted ps s"
  shows "admitted ps t"
  using conn_step_signals[OF assms(1)] assms(2) by (auto simp: admitted_def announced_def)

lemma admitted_simps [simp]:
  "admitted ps (s\<lparr>recved_open := b\<rparr>) = admitted ps s"
  "admitted ps (callback_takes s) = admitted ps s"
  "admitted ps (conn_finish s) = admitted ps s"
  by (auto simp: admitted_def announced_def callback_takes_def conn_finish_def Let_def split: list.split)

lemma callback_step_break: "callback_step pb ev cb = Break e cb' \<Longrightarrow> cb' = cb"
  by (cases "(pb, ev, cb)" rule: callback_step.cases)
    (auto simp: spawn_handler_def call_handler_def Let_def split: if_splits option.splits)

lemma sends_made_packet:
  assumes "callback_step pb (Cb_Packet p) cb = Continue cb'"
  shows "sends_made cb' = sends_made cb"
proof (cases p)
  case (Request r)
  then show ?thesis
    using assms by (cases "rq_command r = Auth")
      (auto simp: sends_made_def spawn_handler_def Let_def split: option.splits)
qed (use assms in \<open>auto simp: sends_made_def spawn_handler_def\<close>)

lemma sends_made_broadcast:
  "callback_step pb (Cb_Broadcast p) cb = Continue cb' \<Longrightarrow> sends_made cb' = sends_made cb @ [p]"
  by (auto simp: sends_made_def call_handler_def List.map_filter_def)

definition sends_inv :: "('r \<Rightarrow> packet list) \<Rightarrow> 'r conn_sys \<Rightarrow> bool" where
  "sends_inv owed S \<longleftrightarrow>
     lossy_receiver.accounts owed (cy_published S) (sends_made (cy_cb S)) (cy_skipped S) (cy_rx S)
     \<and> admitted (cy_published S) (cy_main S)"

lemma sends_inv_step:
  assumes "lossy_receiver bc owed cap" and "conn_sys_step conf pb bc S T"
    and "packets_inv conf pb S" and "sends_inv owed S"
  shows "sends_inv owed T"
  using assms(2)
proof cases
  case (turn ev on_auth t)
  then show ?thesis using assms(4) admitted_step[OF disjI1[OF turn(3)]] by (simp add: sends_inv_def)
next
  case (finish ev on_auth e t)
  then show ?thesis using assms(4) admitted_step[OF disjI2[OF finish(3)]] by (simp add: sends_inv_def)
next
  case (take p ps cb)
  then show ?thesis using assms(4) by (simp add: sends_inv_def sends_made_packet)
next
  case (take_fails p ps e cb)
  then show ?thesis using assms(4) by (auto simp: sends_inv_def dest: callback_step_break)
next
  case (broadcast p r cb)
  then show ?thesis
    using assms(4) lossy_receiver.accounts_received[OF assms(1) _ broadcast(3)]
    by (auto simp: sends_inv_def sends_made_broadcast)
next
  case (lag n r cb)
  then show ?thesis
    using assms(4) lossy_receiver.accounts_lagged[OF assms(1) _ lag(3)] by (auto simp: sends_inv_def)
next
  case (no_senders r e cb)
  then show ?thesis
    using assms(4) lossy_receiver.accounts_idle[OF assms(1) _ disjI2[OF no_senders(4)]]
    by (auto simp: sends_inv_def dest: callback_step_break)
next
  case (handle i)
  then show ?thesis
    using assms(3,4) run_spawned_calls[of "cy_cb S" i] by (simp add: sends_inv_def packets_inv_def)
next
  case (publish n p)
  then show ?thesis
    using assms(4) lossy_receiver.accounts_publish[OF assms(1)] by (auto simp: sends_inv_def admitted_def announced_def)
qed (use assms(4) in \<open>auto simp: sends_inv_def dest: callback_step_break\<close>)

lemma conn_sys_invs:
  assumes "lossy_receiver bc owed cap" and "owed r = []"
    and "conn_sys_reachable conf pb bc (conn_sys_init peer c now tx r) S"
  shows "packets_inv conf pb S \<and> sends_inv owed S"
  using assms(3)
proof (induction rule: conn_sys_reachable.induct)
  case start
  show ?case
    by (simp add: packets_inv_def sends_inv_def conn_sys_init_def conn_init_def callback_init_def
        queue_ok_def waiting_def calls_made_def sends_made_def List.map_filter_def
        lossy_receiver.accounts_def[OF assms(1)] assms(2) admitted_def announced_def)
next
  case (step S T)
  then show ?case using packets_inv_step sends_inv_step[OF assms(1)] by blast
qed

text \<open>What happens to a connection here is what \<open>Server_System\<close> lets happen to it.\<close>

lemma conn_sys_refines:
  assumes "conn_sys_step conf pb bc S T" and "packets_inv conf pb S"
  shows "cy_main T = cy_main S
    \<or> (\<exists>on_auth ev. conn_step conf pb on_auth ev (cy_main S) = Continue (cy_main T))
    \<or> (\<exists>on_auth ev e t. \<not> cy_ended S \<and> conn_step conf pb on_auth ev (cy_main S) = Break e t
         \<and> cy_main T = conn_finish t)"
  using assms(1)
proof cases
  case (take_fails p ps e cb)
  then show ?thesis using packets_inv_take[OF assms(2) take_fails(2,3)] by auto
next
  case (take p ps cb)
  have "conn_step conf pb (\<lambda>_ _ _. True) Callback_Takes (cy_main S) = Continue (cy_main T)"
    using take by simp
  then show ?thesis by blast
next
  case (finish ev on_auth e t)
  then have "\<not> cy_ended S" using conn_step_break_waiting[OF finish(3,2)] by blast
  moreover have "cy_main T = conn_finish t" using finish(1) by simp
  ultimately show ?thesis using finish(3) by blast
next
  case (stopped e cb)
  have "conn_step conf pb (\<lambda>_ _ _. True) Callback_Gone (cy_main S) = Continue (cy_main T)"
    using stopped by simp
  then show ?thesis by blast
next
  case (no_senders r e cb)
  have "conn_step conf pb (\<lambda>_ _ _. True) Callback_Gone (cy_main S) = Continue (cy_main T)"
    using no_senders by simp
  then show ?thesis by blast
qed auto

section \<open>Properties\<close>

text \<open>C7: Every packet of a peer is handled once.  In every reachable state of a connection's
  tasks, whatever the interleaving, the handler's methods for requests, responses and pushes
  have been called, or are about to be, with packets that the peer sent, each no more often than
  it was sent, and never with a heartbeat or an authentication request.  The callback loop never
  fails to decode an authentication request, and it runs as long as the main loop, and while it
  does no packet is lost: each was handled, is in a task about to handle it, is on the channel or
  waits for room there.  The channel keeps to its capacity.\<close>

theorem packets_handled_once:
  assumes "lossy_receiver bc owed cap" and "owed r = []"
    and "conn_sys_reachable conf pb bc (conn_sys_init peer c now tx r) S"
  shows "calls_made (cy_cb S) + mset (spawned (cy_cb S)) \<subseteq># data_calls (cy_from_peer S)
    \<and> (\<not> cy_ended S \<longrightarrow> \<not> cy_cb_ended S)
    \<and> (\<not> cy_cb_ended S \<longrightarrow> recved_open (cy_main S)
        \<and> data_calls (cy_from_peer S) = calls_made (cy_cb S) + mset (spawned (cy_cb S))
            + data_calls (recved_queue (cy_main S) @ deferred (cy_main S)))
    \<and> (\<forall>req. Request req \<in> set (recved_queue (cy_main S)) \<and> rq_command req = Auth
        \<longrightarrow> dec_auth_request pb (rq_body req) \<noteq> None)
    \<and> length (recved_queue (cy_main S)) \<le> process_chan_size (ls_channel_config conf)"
proof -
  have inv: "packets_inv conf pb S" using conn_sys_invs[OF assms] ..
  have "dec_auth_request pb (rq_body req) \<noteq> None"
    if "Request req \<in> set (recved_queue (cy_main S))" "rq_command req = Auth" for req
  proof -
    have "\<forall>p \<in> set (waiting (cy_main S)). decodes pb p"
      using inv unfolding packets_inv_def queue_ok_def by blast
    moreover have "Request req \<in> set (waiting (cy_main S))" using that(1) by (simp add: waiting_def)
    ultimately have "decodes pb (Request req)" by blast
    then show ?thesis using that(2) by simp
  qed
  then show ?thesis using inv unfolding packets_inv_def waiting_def by blast
qed

definition first_push :: push where
  "first_push = quotation_push CmdSubTrades Msg_Trade [7]"

abbreviation first_conn :: "packet list conn_sys" where
  "first_conn \<equiv> conn_sys_init ''p'' 0 0 live_chan []"

definition pushed_conn :: "packet list conn_sys" where
  "pushed_conn = first_conn\<lparr>cy_main := (conn_init ''p'' 0 0 live_chan)\<lparr>last_ping_at := 1, handed := [Push first_push]\<rparr>,
     cy_from_peer := [Push first_push], cy_cb := (callback_init ''p'')\<lparr>handler_calls := [H_Push first_push]\<rparr>\<rparr>"

lemma pushed_conn_reachable: "conn_sys_reachable one_client_conf plain_prost (ring 2 True) first_conn pushed_conn"
proof -
  let ?reach = "conn_sys_reachable one_client_conf plain_prost (ring 2 True) first_conn"
  let ?q = "(conn_init ''p'' 0 0 live_chan)\<lparr>last_ping_at := 1, recved_queue := [Push first_push]\<rparr>"
  let ?A = "first_conn\<lparr>cy_main := ?q, cy_from_peer := [Push first_push]\<rparr>"
  let ?B = "?A\<lparr>cy_main := ?q\<lparr>recved_queue := [], handed := [Push first_push]\<rparr>, cy_cb := (callback_init ''p'')\<lparr>spawned := [H_Push first_push]\<rparr>\<rparr>"
  have "?reach first_conn" by (rule conn_sys_reachable.start)
  moreover have "conn_sys_step one_client_conf plain_prost (ring 2 True) first_conn ?A"
    using conn_sys_step.turn[of first_conn "Peer_Packet 1 (Push first_push)" one_client_conf plain_prost
        "\<lambda>_ _ _. True" ?q "ring 2 True"]
    by (simp add: conn_sys_init_def conn_init_def on_peer_packet_def forward_packet_def one_client_conf_def
        default_channel_config_def)
  ultimately have "?reach ?A" by (rule conn_sys_reachable.step)
  moreover have "conn_sys_step one_client_conf plain_prost (ring 2 True) ?A ?B"
    using conn_sys_step.take[of ?A "Push first_push" "[]" plain_prost "(cy_cb ?B)" one_client_conf "ring 2 True"]
    by (simp add: conn_sys_init_def callback_takes_def spawn_handler_def callback_init_def conn_init_def)
  ultimately have "?reach ?B" by (rule conn_sys_reachable.step)
  moreover have "conn_sys_step one_client_conf plain_prost (ring 2 True) ?B pushed_conn"
    using conn_sys_step.handle[of one_client_conf plain_prost "ring 2 True" ?B 0]
    by (simp add: pushed_conn_def conn_sys_init_def callback_init_def conn_init_def run_spawned_def)
  ultimately show ?thesis by (rule conn_sys_reachable.step)
qed

theorem packets_handled_once_witness:
  "calls_made (cy_cb pushed_conn) = {#H_Push first_push#}
   \<and> data_calls (cy_from_peer pushed_conn) = {#H_Push first_push#} \<and> recved_open (cy_main pushed_conn)"
  using packets_handled_once[OF ring.lossy_receiver_axioms _ pushed_conn_reachable]
  by (simp add: pushed_conn_def calls_made_def conn_sys_init_def)

text \<open>C17: Broadcasts are handed over in order, and only to clients that authenticated.  The
  packets with which \<open>on_send\<close> was called are, in order, among those broadcast to the
  connection; what is missing was reported as skipped or is still to come, and if nothing was
  skipped none is missing.  A broadcast reaches the connection only after it has announced
  itself, which it does on accepted authentications only.\<close>

theorem broadcasts_sent_in_order:
  assumes "lossy_receiver bc owed cap" and "owed r = []"
    and "conn_sys_reachable conf pb bc (conn_sys_init peer c now tx r) S"
  shows "subseq (sends_made (cy_cb S)) (cy_published S)
    \<and> length (cy_published S) = length (sends_made (cy_cb S)) + cy_skipped S + length (owed (cy_rx S))
    \<and> (cy_skipped S = 0 \<longrightarrow> cy_published S = sends_made (cy_cb S) @ owed (cy_rx S))
    \<and> (sends_made (cy_cb S) \<noteq> [] \<longrightarrow> is_auth_ok (cy_main S))"
proof -
  note inv = conjunct2[OF conn_sys_invs[OF assms], unfolded sends_inv_def]
  have sub: "subseq (sends_made (cy_cb S) @ owed (cy_rx S)) (cy_published S)"
    and len: "length (cy_published S) = length (sends_made (cy_cb S)) + cy_skipped S + length (owed (cy_rx S))"
    using inv lossy_receiver.accounts_def[OF assms(1)] by blast+
  have "subseq (sends_made (cy_cb S)) (cy_published S)"
    using sub subseq_order.order_trans prefix_imp_subseq prefixI by metis
  moreover have "cy_published S = sends_made (cy_cb S) @ owed (cy_rx S)" if "cy_skipped S = 0"
    using inv that lossy_receiver.accounts_lossless[OF assms(1)] by metis
  moreover have "is_auth_ok (cy_main S)" if "sends_made (cy_cb S) \<noteq> []"
    using inv that len by (auto simp: admitted_def)
  ultimately show ?thesis using len by blast
qed

lemma served_conn_room:
  "length (recved_queue served_conn) \<le> process_chan_size (ls_channel_config one_client_conf)"
  "this_conn served_conn = 0"
  by (simp_all add: served_conn_def on_peer_packet_def on_auth_request_def auth_as_def new_request_def
      name_prost_def conn_init_def one_client_conf_def default_channel_config_def)

definition sent_conn :: "packet list conn_sys" where
  "sent_conn = first_conn\<lparr>cy_main := served_conn, cy_from_peer := [auth_as [1]],
     cy_published := [Push first_push],
     cy_cb := (callback_init ''p'')\<lparr>handler_calls := [H_Send (Push first_push)]\<rparr>\<rparr>"

lemma sent_conn_reachable: "conn_sys_reachable one_client_conf name_prost (ring 2 True) first_conn sent_conn"
proof -
  let ?reach = "conn_sys_reachable one_client_conf name_prost (ring 2 True) first_conn"
  let ?A = "first_conn\<lparr>cy_main := served_conn, cy_from_peer := [auth_as [1]]\<rparr>"
  let ?B = "?A\<lparr>cy_rx := [Push first_push], cy_published := [Push first_push]\<rparr>"
  have "?reach first_conn" by (rule conn_sys_reachable.start)
  moreover have "conn_sys_step one_client_conf name_prost (ring 2 True) first_conn ?A"
    using conn_sys_step.turn[of first_conn "Peer_Packet 1 (auth_as [1])" one_client_conf name_prost
        "\<lambda>_ _ _. True" served_conn "ring 2 True"] served_conn_simps
    by (simp add: conn_sys_init_def served_conn_room)
  ultimately have "?reach ?A" by (rule conn_sys_reachable.step)
  moreover have "conn_sys_step one_client_conf name_prost (ring 2 True) ?A ?B"
    using conn_sys_step.publish[of "''a@p''" ?A one_client_conf name_prost "ring 2 True" "Push first_push"]
    by (simp add: conn_sys_init_def served_conn_simps served_conn_room ring_def)
  ultimately have "?reach ?B" by (rule conn_sys_reachable.step)
  moreover have "conn_sys_step one_client_conf name_prost (ring 2 True) ?B sent_conn"
    using conn_sys_step.broadcast[of ?B "ring 2 True" "Push first_push" "[]" name_prost "cy_cb sent_conn" one_client_conf]
    by (simp add: sent_conn_def conn_sys_init_def ring_simps call_handler_def callback_init_def)
  ultimately show ?thesis by (rule conn_sys_reachable.step)
qed

theorem broadcasts_sent_in_order_witness:
  "sends_made (cy_cb sent_conn) = [Push first_push] \<and> cy_published sent_conn = [Push first_push]
   \<and> is_auth_ok (cy_main sent_conn)"
  using broadcasts_sent_in_order[OF ring.lossy_receiver_axioms _ sent_conn_reachable]
  by (simp add: sent_conn_def sends_made_def List.map_filter_def)

end
