(* ===== verification/Example_Server.thy ===== *)
theory Example_Server
  imports Link_Server
begin

text \<open>
  \<open>link/examples/server.rs\<close>: the example \<open>ConnHandler\<close>, whose handlers share a count of
  connections per user and answer through the connection's sender, and the demonstration trade
  that the example publishes every second.  The codecs of the messages a server writes are a
  parameter.  An \<open>unwrap\<close> that fails, or an overflow of a debug build, is \<open>Panic\<close>.
\<close>

section \<open>The handler\<close>

record reply_codecs =
  enc_auth_response :: "auth_response \<Rightarrow> bytes"
  enc_subscribe_response :: "subscribe_response \<Rightarrow> bytes"
  enc_link_error :: "link_error \<Rightarrow> bytes"
  dec_subscribe_request :: "bytes \<Rightarrow> subscribe_request option"

record ex_handler =
  eh_conns :: "string \<rightharpoonup> 32 word"
  eh_tx :: "packet chan"

definition new_handler :: "(string \<rightharpoonup> 32 word) \<Rightarrow> packet chan \<Rightarrow> ex_handler" where
  "new_handler conns tx = \<lparr>eh_conns = conns, eh_tx = tx\<rparr>"

definition ex_send :: "packet \<Rightarrow> ex_handler \<Rightarrow> ex_handler" where
  "ex_send packet h = (case chan_send packet (eh_tx h) of None \<Rightarrow> h | Some tx \<Rightarrow> h\<lparr>eh_tx := tx\<rparr>)"

definition ex_on_auth ::
    "reply_codecs \<Rightarrow> u32 \<Rightarrow> auth_info \<Rightarrow> ex_handler \<Rightarrow> (unit, bool \<times> ex_handler) res" where
  "ex_on_auth rc request_id info h =
     (let num = (case eh_conns h (user_name info) of None \<Rightarrow> 0 | Some n \<Rightarrow> n) in
      if sint num = 2 ^ 31 - 1 then Inl Panic
      else let h = h\<lparr>eh_conns := (eh_conns h)(user_name info \<mapsto> num + 1)\<rparr>;
          raw_data = enc_auth_response rc \<lparr>arp_auth_info = Some info\<rparr> in
        Inr (True, ex_send (Response \<lparr>rs_reserved = 0, rs_command = Auth, rs_id = request_id,
          rs_status = Success, rs_body_len = len_u32 raw_data, rs_body = raw_data\<rparr>) h))"

definition ex_on_disconnect :: "string \<Rightarrow> auth_info \<Rightarrow> ex_handler \<Rightarrow> ex_handler" where
  "ex_on_disconnect peer info h = h"

definition ex_on_push :: "push \<Rightarrow> ex_handler \<Rightarrow> ex_handler" where
  "ex_on_push p h = h"

definition ex_on_response :: "response \<Rightarrow> ex_handler \<Rightarrow> ex_handler" where
  "ex_on_response r h = h"

definition unsupported_command :: link_error where
  "unsupported_command = \<lparr>le_code = 400, le_msg = ''unsupported command''\<rparr>"

definition ex_subscribed :: "request \<Rightarrow> bytes \<Rightarrow> packet" where
  "ex_subscribed req body = Response
     \<lparr>rs_reserved = 0, rs_command = rq_command req, rs_id = rq_id req, rs_status = Success,
      rs_body_len = len_u32 body, rs_body = body\<rparr>"

definition ex_unsupported :: "request \<Rightarrow> bytes \<Rightarrow> packet" where
  "ex_unsupported req raw_data = Response
     \<lparr>rs_reserved = 0, rs_command = rq_command req, rs_id = rq_id req, rs_status = BadRequest,
      rs_body_len = len_u32 raw_data, rs_body = raw_data\<rparr>"

definition ex_on_request :: "reply_codecs \<Rightarrow> request \<Rightarrow> ex_handler \<Rightarrow> (unit, ex_handler) res" where
  "ex_on_request rc req h =
     (if rq_command req \<in> {CmdSubAllType, CmdSubTrades, CmdSubOrderBook} then
        (case dec_subscribe_request rc (rq_body req) of
           None \<Rightarrow> Inl Panic
         | Some subscribe_request \<Rightarrow>
             let response = enc_subscribe_response rc \<lparr>sub_success = [], sub_failed = []\<rparr>
             in Inr (ex_send (ex_subscribed req response) h))
      else
        let raw_data = enc_link_error rc unsupported_command
        in Inr (ex_send (ex_unsupported req raw_data) h))"

definition ex_on_send :: "packet \<Rightarrow> ex_handler \<Rightarrow> ex_handler" where
  "ex_on_send packet h = ex_send packet h"

text \<open>The handler answering a call of the callback loop.\<close>

fun ex_call :: "reply_codecs \<Rightarrow> handler_call \<Rightarrow> ex_handler \<Rightarrow> (unit, ex_handler) res" where
  "ex_call rc (H_Request r) h = ex_on_request rc r h"
| "ex_call rc (H_Response r) h = Inr (ex_on_response r h)"
| "ex_call rc (H_Push p) h = Inr (ex_on_push p h)"
| "ex_call rc (H_Send p) h = Inr (ex_on_send p h)"

section \<open>The demonstration trade\<close>

record trade_price =
  tp_src_id :: i64
  tp_symbol :: string
  tp_timestamp :: i64
  tp_price :: i64
  tp_amount :: u64
  tp_type :: string
  tp_side :: "32 word"
  tp_sequence :: i64
  tp_total_amount :: u64
  tp_total_balance :: u64
  tp_sale_condition :: i64
  tp_open :: i64
  tp_high :: i64
  tp_low :: i64
  tp_open_interest :: i64
  tp_exchange_id :: "32 word"
  tp_exchange_seq :: i64
  tp_tag :: "32 word"
  tp_nano_timestamp :: i64

definition i64_mul :: "i64 \<Rightarrow> i64 \<Rightarrow> ('e, i64) res" where
  "i64_mul a b =
     (if - (2 ^ 63) \<le> sint a * sint b \<and> sint a * sint b < 2 ^ 63 then Inr (a * b) else Inl Panic)"

text \<open>The clock reading in microseconds is an argument.\<close>

definition demo_trade :: "i64 \<Rightarrow> (unit, trade_price) res" where
  "demo_trade micros =
     and_then (i64_mul micros 1000) (\<lambda>nanos.
       Inr \<lparr>tp_src_id = 999, tp_symbol = ''ST/US/AAPL'', tp_timestamp = 10086, tp_price = 10000,
            tp_amount = 100, tp_type = ''I'', tp_side = 1, tp_sequence = 1, tp_total_amount = 100,
            tp_total_balance = 1000, tp_sale_condition = 1, tp_open = 10000, tp_high = 10000,
            tp_low = 10000, tp_open_interest = 10000, tp_exchange_id = 1, tp_exchange_seq = 1,
            tp_tag = 1, tp_nano_timestamp = nanos\<rparr>)"

definition demo_packet :: "(trade_price \<Rightarrow> bytes) \<Rightarrow> trade_price \<Rightarrow> packet" where
  "demo_packet enc trade =
     (let raw_data = enc trade in
      Push \<lparr>ps_reserved = 0, ps_command = CmdSubAllType, ps_msg_type = Msg_Trade,
            ps_body_len = len_u32 raw_data, ps_body = raw_data\<rparr>)"

text \<open>One round of the publishing loop: an error is logged and the loop goes on.\<close>

definition demo_round :: "packet \<Rightarrow> server \<Rightarrow> server" where
  "demo_round packet s = (case send_packet packet s of Inl e \<Rightarrow> s | Inr s' \<Rightarrow> s')"

section \<open>The count of connections\<close>

text \<open>
  The handlers of all connections count accepted authentications per user; what the example
  logs as the number of connections never goes down.
\<close>

fun ex_auths :: "reply_codecs \<Rightarrow> (u32 \<times> auth_info) list \<Rightarrow> ex_handler \<Rightarrow> (unit, ex_handler) res" where
  "ex_auths rc [] h = Inr h"
| "ex_auths rc ((i, info) # rest) h =
     and_then (ex_on_auth rc i info h) (\<lambda>(ok, h). ex_auths rc rest (ex_on_disconnect [] info h))"

definition count_of :: "ex_handler \<Rightarrow> string \<Rightarrow> int" where
  "count_of h u = (case eh_conns h u of None \<Rightarrow> 0 | Some n \<Rightarrow> sint n)"

lemma ex_send_conns [simp]: "eh_conns (ex_send p h) = eh_conns h"
  by (simp add: ex_send_def split: option.split)

lemma ex_send_live: "chan_live (eh_tx h) \<Longrightarrow>
  ch_sent (eh_tx (ex_send p h)) = ch_sent (eh_tx h) @ [p] \<and> chan_live (eh_tx (ex_send p h))"
  by (simp add: ex_send_def flow_simps)

lemma sint_succ:
  assumes "sint (n :: 32 word) \<noteq> 2 ^ 31 - 1" shows "sint (n + 1) = sint n + 1"
proof -
  have "- (2 ^ 31) \<le> sint n" "sint n < 2 ^ 31" using sint_range_size[of n] by (simp_all add: word_size)
  then show ?thesis
    using assms by (simp add: sint_word_ariths signed_take_bit_int_eq_self)
qed

lemma ex_on_auth_count:
  assumes "ex_on_auth rc i info h = Inr (ok, h')"
  shows "count_of h' u = count_of h u + (if user_name info = u then 1 else 0)"
  using assms sint_succ
  by (auto simp: ex_on_auth_def count_of_def Let_def split: if_splits option.splits)

lemma ex_on_auth_answers:
  assumes "count_of h (user_name info) < 2 ^ 31 - 1" and "chan_live (eh_tx h)"
  shows "\<exists>h'. ex_on_auth rc i info h = Inr (True, h')
    \<and> ch_sent (eh_tx h') = ch_sent (eh_tx h)
        @ [Response (response_new Auth i Success (enc_auth_response rc \<lparr>arp_auth_info = Some info\<rparr>))]"
  using assms ex_send_live[of "h\<lparr>eh_conns := m\<rparr>" for m]
  by (auto simp: ex_on_auth_def count_of_def response_new_def Let_def split: option.splits)

lemma ex_auths_count:
  assumes "ex_auths rc auths h = Inr h'"
  shows "count_of h' u = count_of h u + int (length (filter (\<lambda>(i, info). user_name info = u) auths))"
  using assms
proof (induction rc auths h rule: ex_auths.induct)
  case (2 rc i info rest h)
  obtain ok h1 where h1: "ex_on_auth rc i info h = Inr (ok, h1)" "ex_auths rc rest h1 = Inr h'"
    using 2(2) by (cases "ex_on_auth rc i info h") (auto simp: ex_on_disconnect_def)
  have "count_of h' u = count_of h1 u + int (length (filter (\<lambda>(i, info). user_name info = u) rest))"
    using 2(1)[OF h1(1) refl] h1(2) by (simp add: ex_on_disconnect_def)
  then show ?case using ex_on_auth_count[OF h1(1), of u] by simp
qed simp

lemma ex_auths_count_witness:
  "\<exists>h. ex_auths \<lparr>enc_auth_response = \<lambda>_. [], enc_subscribe_response = \<lambda>_. [], enc_link_error = \<lambda>_. [],
      dec_subscribe_request = \<lambda>_. None\<rparr> [(1, default_auth_info), (2, default_auth_info)]
      (new_handler Map.empty live_chan) = Inr h \<and> count_of h [] = 2"
  using ex_auths_count[of _ "[(1, default_auth_info), (2, default_auth_info)]"
      "new_handler Map.empty live_chan" _ "[]"]
  by (simp add: ex_on_auth_def default_auth_info_def new_handler_def ex_on_disconnect_def
      count_of_def Let_def)

end
