(* ===== verification/Example_Clients.thy ===== *)
theory Example_Clients
  imports Client_Theorems Server_Theorems Broadcast
begin

text \<open>
  The example consumers, \<open>link/examples/client.rs\<close>, \<open>async_client.rs\<close> and
  \<open>quotation_client.rs\<close>.  Each hands what the client calls it with to a broadcast channel, on
  whose other end a task reads; the first also sends every push back and makes a request of its
  own when it is connected.  \<open>'x\<close> is what is broadcast.
\<close>

section \<open>What the consumers publish\<close>

fun async_publishes :: "'w client_action \<Rightarrow> packet option" where
  "async_publishes (On_Push push) = Some (Push push)"
| "async_publishes (On_Response response) = Some (Response response)"
| "async_publishes (On_Request request) = Some (Request request)"
| "async_publishes _ = None"

fun quotation_publishes ::
    "('t, 'p, 'd, 'b, 'k, 'o) quotation_codecs \<Rightarrow> 'w client_action
      \<Rightarrow> ('t, 'p, 'd, 'b, 'k, 'o) quotation option" where
  "quotation_publishes cs (On_Push push) = parse_quotation cs (ps_msg_type push) (ps_body push)"
| "quotation_publishes cs _ = None"

section \<open>The reading tasks\<close>

text \<open>
  One call of the receiver by the reading task, which is the same in \<open>async_client.rs\<close> and in
  \<open>quotation_client.rs\<close>: it logs what it gets, or how many it missed, and goes on until the channel is closed.
\<close>

datatype 'x logged = Got 'x | Missed nat

record ('r, 'x) stream_state =
  st_rx :: 'r
  st_log :: "'x logged list"
  st_closed :: bool

definition read_turn :: "('r, 'x) bc_ops \<Rightarrow> ('r, 'x) stream_state \<Rightarrow> ('r, 'x) stream_state" where
  "read_turn bc s =
     (if st_closed s then s
      else case bc_recv bc (st_rx s) of
        (Received x, r) \<Rightarrow> s\<lparr>st_rx := r, st_log := st_log s @ [Got x]\<rparr>
      | (Lagged n, r) \<Rightarrow> s\<lparr>st_rx := r, st_log := st_log s @ [Missed n]\<rparr>
      | (Closed, r) \<Rightarrow> s\<lparr>st_rx := r, st_closed := True\<rparr>
      | (Pending, r) \<Rightarrow> s\<lparr>st_rx := r\<rparr>)"

text \<open>The reading task of \<open>client.rs\<close> counts, and an \<open>i32\<close> count overflows in a debug build.\<close>

definition count_turn ::
    "('r, 'x) bc_ops \<Rightarrow> 'r \<times> 32 word \<Rightarrow> 32 word logged list
      \<Rightarrow> (unit fault, ('r \<times> 32 word) \<times> 32 word logged list) ctl" where
  "count_turn bc = (\<lambda>(r, cnt) log.
     (case bc_recv bc r of
        (Received x, r') \<Rightarrow>
          if sint cnt = 2 ^ 31 - 1 then Break Panic ((r', cnt), log)
          else let cnt = cnt + 1 in
            Continue ((r', cnt), if sint cnt mod 10000 = 0 then log @ [Got cnt] else log)
      | (Lagged n, r') \<Rightarrow> Continue ((r', cnt), log @ [Missed n])
      | (Closed, r') \<Rightarrow> Break (Err ()) ((r', cnt), log)
      | (Pending, r') \<Rightarrow> Continue ((r', cnt), log)))"

text \<open>
  The consumer and its reading task together: a callback of the client, whose send to the
  channel is ignored when it fails, or a turn of the reader.
\<close>

datatype 'w stream_event = Called "'w client_action" | Read

fun stream_step ::
    "('w client_action \<Rightarrow> 'x option) \<Rightarrow> ('r, 'x) bc_ops \<Rightarrow> 'w stream_event
      \<Rightarrow> ('r, 'x) stream_state \<Rightarrow> ('r, 'x) stream_state" where
  "stream_step publishes bc (Called a) s =
     (case publishes a of None \<Rightarrow> s | Some x \<Rightarrow> s\<lparr>st_rx := bc_publish bc x (st_rx s)\<rparr>)"
| "stream_step publishes bc Read s = read_turn bc s"

definition stream_run ::
    "('w client_action \<Rightarrow> 'x option) \<Rightarrow> ('r, 'x) bc_ops \<Rightarrow> 'w stream_event list \<Rightarrow> 'r
      \<Rightarrow> ('r, 'x) stream_state" where
  "stream_run publishes bc evs r = fold (stream_step publishes bc) evs \<lparr>st_rx = r, st_log = [], st_closed = False\<rparr>"

section \<open>The consumer of \<open>client.rs\<close>\<close>

text \<open>
  \<open>on_push\<close>: the quotation is handed on with an \<open>unwrap\<close>, which panics when the reading task is
  gone, and the push goes back to the server.  \<open>on_connected\<close> starts a task that asks for
  order books; \<open>w\<close> is its reply channel.
\<close>

definition ex_client_push ::
    "('t, 'p, 'd, 'b, 'k, 'o) quotation_codecs \<Rightarrow> ('r, ('t, 'p, 'd, 'b, 'k, 'o) quotation) bc_ops
      \<Rightarrow> bool \<Rightarrow> push \<Rightarrow> 'r \<times> 'w client_state \<Rightarrow> (unit, 'r \<times> 'w client_state) res" where
  "ex_client_push cs bc reader_alive push = (\<lambda>(r, s).
     and_then
       (case parse_quotation cs (ps_msg_type push) (ps_body push) of
          None \<Rightarrow> Inr r
        | Some quotation \<Rightarrow> if reader_alive then Inr (bc_publish bc quotation r) else Inl Panic)
       (\<lambda>r. Inr (r, api_push push s)))"

definition ex_client_connected :: "prost \<Rightarrow> 'w \<Rightarrow> 'w client_state \<Rightarrow> 'w client_state" where
  "ex_client_connected pb w s =
     api_request CmdSubOrderBook
       (enc_subscribe_request pb \<lparr>sub_all = True, counter_ids = [], span_index = 0\<rparr>) w s"

text \<open>
  All callbacks of the consumer, and one turn of the dispatch task with it: the consumer reacts
  to what the client called it with.
\<close>

fun ex_client_react ::
    "('t, 'p, 'd, 'b, 'k, 'o) quotation_codecs \<Rightarrow> ('r, ('t, 'p, 'd, 'b, 'k, 'o) quotation) bc_ops \<Rightarrow> prost
      \<Rightarrow> bool \<Rightarrow> 'w \<Rightarrow> 'w client_action \<Rightarrow> 'r \<times> 'w client_state \<Rightarrow> (unit, 'r \<times> 'w client_state) res" where
  "ex_client_react cs bc pb reader_alive w (On_Push push) rs = ex_client_push cs bc reader_alive push rs"
| "ex_client_react cs bc pb reader_alive w On_Connected (r, s) = Inr (r, ex_client_connected pb w s)"
| "ex_client_react cs bc pb reader_alive w _ rs = Inr rs"

definition ex_client_dispatch ::
    "('t, 'p, 'd, 'b, 'k, 'o) quotation_codecs \<Rightarrow> ('r, ('t, 'p, 'd, 'b, 'k, 'o) quotation) bc_ops \<Rightarrow> prost
      \<Rightarrow> bool \<Rightarrow> 'w \<Rightarrow> 'r \<times> 'w client_state \<Rightarrow> (unit, 'r \<times> 'w client_state) res" where
  "ex_client_dispatch cs bc pb reader_alive w = (\<lambda>(r, s).
     (let s' = dispatch s in
      fold (\<lambda>a m. and_then m (ex_client_react cs bc pb reader_alive w a))
        (drop (length (actions s)) (actions s')) (Inr (r, s'))))"

text \<open>A push that is dispatched goes back to the server unchanged, after what was queued before.\<close>

lemma ex_client_echoes:
  assumes "process_queue s = Push push # rest"
  shows "\<exists>r'. ex_client_dispatch cs bc pb True w (r, s) =
    Inr (r', api_push push (act (On_Push push) (s\<lparr>process_queue := rest\<rparr>)))"
proof (cases "parse_quotation cs (ps_msg_type push) (ps_body push)")
  case None
  then show ?thesis
    using assms by (simp add: ex_client_dispatch_def dispatch_def act_def ex_client_push_def)
next
  case (Some q)
  then show ?thesis
    using assms by (simp add: ex_client_dispatch_def dispatch_def act_def ex_client_push_def)
qed

section \<open>The two small clients\<close>

definition async_client_run :: "('r, packet) bc_ops \<Rightarrow> 'w stream_event list \<Rightarrow> 'r \<Rightarrow> ('r, packet) stream_state" where
  "async_client_run bc evs r = stream_run async_publishes bc evs r"

definition quotation_client_run ::
    "('t, 'p, 'd, 'b, 'k, 'o) quotation_codecs \<Rightarrow> ('r, ('t, 'p, 'd, 'b, 'k, 'o) quotation) bc_ops
      \<Rightarrow> 'w stream_event list \<Rightarrow> 'r \<Rightarrow> ('r, ('t, 'p, 'd, 'b, 'k, 'o) quotation) stream_state" where
  "quotation_client_run cs bc evs r = stream_run (quotation_publishes cs) bc evs r"

section \<open>What the reader sees\<close>

definition read_items :: "'x logged list \<Rightarrow> 'x list" where
  "read_items log = List.map_filter (\<lambda>e. case e of Got x \<Rightarrow> Some x | _ \<Rightarrow> None) log"

definition missed_items :: "'x logged list \<Rightarrow> nat" where
  "missed_items log = sum_list (map (\<lambda>e. case e of Missed n \<Rightarrow> n | _ \<Rightarrow> 0) log)"

lemma log_items_append [simp]:
  "read_items (log @ [Got x]) = read_items log @ [x]" "read_items (log @ [Missed n]) = read_items log"
  "missed_items (log @ [Got x]) = missed_items log" "missed_items (log @ [Missed n]) = missed_items log + n"
  by (simp_all add: read_items_def missed_items_def List.map_filter_def)

fun published :: "('w client_action \<Rightarrow> 'x option) \<Rightarrow> 'w stream_event list \<Rightarrow> 'x list" where
  "published publishes [] = []"
| "published publishes (Called a # evs) =
     (case publishes a of None \<Rightarrow> published publishes evs | Some x \<Rightarrow> x # published publishes evs)"
| "published publishes (Read # evs) = published publishes evs"

lemma published_snoc:
  "published publishes (evs @ [ev]) = published publishes evs @ published publishes [ev]"
  by (induction publishes evs rule: published.induct) (auto split: option.split)

lemma stream_run_snoc [simp]:
  "stream_run publishes bc (evs @ [ev]) r = stream_step publishes bc ev (stream_run publishes bc evs r)"
  by (simp add: stream_run_def)

context lossy_receiver
begin

lemma stream_run_accounts:
  assumes "owed r = []"
  shows "accounts (published publishes evs) (read_items (st_log (stream_run publishes bc evs r)))
    (missed_items (st_log (stream_run publishes bc evs r))) (st_rx (stream_run publishes bc evs r))"
proof (induction evs rule: rev_induct)
  case Nil
  show ?case by (simp add: stream_run_def accounts_def assms read_items_def missed_items_def List.map_filter_def)
next
  case (snoc ev evs)
  let ?s = "stream_run publishes bc evs r"
  show ?case
  proof (cases ev)
    case (Called a)
    then show ?thesis
      using snoc accounts_publish by (cases "publishes a") (simp_all add: published_snoc)
  next
    case Read
    obtain d r' where recv: "bc_recv bc (st_rx ?s) = (d, r')" by force
    then show ?thesis
      using snoc Read accounts_received[OF snoc] accounts_lagged[OF snoc] accounts_idle[OF snoc]
      by (cases d) (simp_all add: published_snoc read_turn_def)
  qed
qed

end

section \<open>Properties\<close>

lemma published_quotations:
  assumes "codecs_invert cs"
    and "List.map_filter (\<lambda>e. case e of Called (On_Push p) \<Rightarrow> Some p | _ \<Rightarrow> None) evs
      = map (\<lambda>(q, cmd). quotation_push cmd (quotation_msg_type q) (encode_quotation cs q)) qs"
  shows "published (quotation_publishes cs) evs = map fst qs"
  using assms(2)
proof (induction evs arbitrary: qs)
  case (Cons ev evs)
  show ?case
  proof (cases "\<exists>p. ev = Called (On_Push p)")
    case True
    then obtain p q cmd qs' where "ev = Called (On_Push p)" "qs = (q, cmd) # qs'"
      "p = quotation_push cmd (quotation_msg_type q) (encode_quotation cs q)"
      using Cons.prems by (auto simp: List.map_filter_simps)
    then show ?thesis
      using Cons quotation_roundtrip[OF assms(1), of q]
      by (simp add: List.map_filter_simps quotation_push_def)
  next
    case False
    then have "published (quotation_publishes cs) (ev # evs) = published (quotation_publishes cs) evs"
    proof (cases ev)
      case (Called a)
      then show ?thesis using False by (cases a) simp_all
    qed simp
    then show ?thesis
      using Cons False by (auto simp: List.map_filter_simps split: stream_event.splits client_action.splits)
  qed
qed (auto simp: List.map_filter_simps)

text \<open>C30: The quotation stream.  The reader of the quotation client gets, in order, quotations that
  the server published: when the pushes the client's callbacks were called with come, in order,
  from quotations that \<open>send_quotation\<close> encoded, then what the reader logs is a subsequence of
  these quotations.  Every other one was reported as missed or is still to come, and if none was
  reported missed, the reader has a prefix of them.  What else the consumer is called with does
  not disturb the stream.\<close>

theorem quotation_client_stream:
  assumes "lossy_receiver bc owed cap" and "owed r = []" and "codecs_invert cs"
    and "List.map_filter (\<lambda>e. case e of Called (On_Push p) \<Rightarrow> Some p | _ \<Rightarrow> None) evs
      = map (\<lambda>(q, cmd). quotation_push cmd (quotation_msg_type q) (encode_quotation cs q)) qs"
    and "s = quotation_client_run cs bc evs r"
  shows "subseq (read_items (st_log s)) (map fst qs)
    \<and> length qs = length (read_items (st_log s)) + missed_items (st_log s) + length (owed (st_rx s))
    \<and> (missed_items (st_log s) = 0 \<longrightarrow> prefix (read_items (st_log s)) (map fst qs))"
proof -
  have acc: "lossy_receiver.accounts owed (map fst qs) (read_items (st_log s)) (missed_items (st_log s)) (st_rx s)"
    using lossy_receiver.stream_run_accounts[OF assms(1,2), of "quotation_publishes cs" evs]
      published_quotations[OF assms(3,4)] assms(5)
    by (simp add: quotation_client_run_def)
  then have sub: "subseq (read_items (st_log s) @ owed (st_rx s)) (map fst qs)"
    and len: "length (map fst qs) = length (read_items (st_log s)) + missed_items (st_log s) + length (owed (st_rx s))"
    using lossy_receiver.accounts_def[OF assms(1)] by blast+
  have "subseq (read_items (st_log s)) (map fst qs)"
    using sub subseq_order.order_trans prefix_imp_subseq prefixI by metis
  moreover have "prefix (read_items (st_log s)) (map fst qs)" if "missed_items (st_log s) = 0"
    using lossy_receiver.accounts_lossless[OF assms(1)] acc that prefixI by metis
  ultimately show ?thesis using len by simp
qed

theorem quotation_client_stream_witness:
  "read_items (st_log (quotation_client_run plain_codecs (ring 2 True)
     [Called (On_Push (quotation_push CmdSubTrades Msg_Trade [7])), Called (On_Connected :: nat client_action), Read] []))
   = [Q_Trade [7]]"
proof -
  let ?evs = "[Called (On_Push (quotation_push CmdSubTrades Msg_Trade [7])),
     Called (On_Connected :: nat client_action), Read]"
  let ?s = "quotation_client_run plain_codecs (ring 2 True) ?evs []"
  have "missed_items (st_log ?s) = 0" "length (st_rx ?s) = 0"
    by (simp_all add: quotation_client_run_def stream_run_def quotation_push_def plain_codecs_def read_turn_def ring_simps
        missed_items_def)
  then have "prefix (read_items (st_log ?s)) [Q_Trade [7]]" "length (read_items (st_log ?s)) = 1"
    using quotation_client_stream[OF ring.lossy_receiver_axioms _ plain_codecs_invert, of "[]" ?evs
        "[(Q_Trade [7], CmdSubTrades)]" ?s 2]
    by (simp_all add: List.map_filter_simps plain_codecs_def)
  then show ?thesis by (cases "read_items (st_log ?s)") (auto simp: prefix_def)
qed

end
