(* ===== verification/Request_Exchange.thy ===== *)
theory Request_Exchange
  imports Exchange Server_Callbacks Example_Server Example_Clients
begin

text \<open>
  A client of the library and a server with the example handler: the login, from the
  authentication packet to the subscriptions, and a request of an application from
  \<open>send_request\<close> to its result, over the queues and loops of both sides and the wire.
\<close>

section \<open>The steps of a request\<close>

definition request_of :: "command \<Rightarrow> u32 \<Rightarrow> bytes \<Rightarrow> request" where
  "request_of cmd i body = \<lparr>rq_reserved = 0, rq_command = cmd, rq_id = request_id_trim i,
     rq_timeout = DEFAULT_REQUEST_TIMEOUT, rq_body_len = len_u32 body, rq_body = body\<rparr>"

lemma new_request_of: "new_request cmd i body = Request (request_of cmd i body)"
  by (simp add: new_request_def request_of_def)

text \<open>The caller's request on its way to the connection; its reply channel is kept under its id.\<close>

lemma request_sent:
  assumes "cmd \<noteq> Heartbeat" and "cmd \<noteq> Auth" and "request_queue c = []"
    and "chan_live (inner_request_tx c)"
  shows "\<exists>c'. take_request True (api_request cmd body w c) = Continue c'
    \<and> ch_sent (inner_request_tx c')
        = ch_sent (inner_request_tx c) @ [Request (request_of cmd (request_id_gen c) body)]
    \<and> requests c' = (requests c)(request_id_trim (request_id_gen c) \<mapsto> w)
    \<and> process_queue c' = process_queue c \<and> process_open c' = process_open c \<and> actions c' = actions c"
  using assms
  by (simp add: api_request_def next_id_def take_request_def new_request_of flow_simps request_of_def)

text \<open>The request on the server, from the main loop to the task in which the handler runs.\<close>

lemma request_handed:
  assumes "rq_command req \<noteq> Heartbeat" and "rq_command req \<noteq> Auth"
    and "recved_open s" and "recved_queue s = []" and "0 < process_chan_size (ls_channel_config conf)"
  shows "\<exists>s'. conn_step conf pb on_auth (Peer_Packet now (Request req)) s = Continue s'
    \<and> recved_queue s' = [Request req]
    \<and> callback_step pb (Cb_Packet (Request req)) cb = Continue (cb\<lparr>spawned := spawned cb @ [H_Request req]\<rparr>)"
  using assms by (simp add: on_peer_packet_def forward_packet_def spawn_handler_def)

text \<open>What the example handler answers.\<close>

definition ex_answer :: "reply_codecs \<Rightarrow> request \<Rightarrow> response" where
  "ex_answer rc req =
     (let ok = rq_command req \<in> {CmdSubAllType, CmdSubTrades, CmdSubOrderBook};
          body = (if ok then enc_subscribe_response rc \<lparr>sub_success = [], sub_failed = []\<rparr>
                  else enc_link_error rc unsupported_command) in
      \<lparr>rs_reserved = 0, rs_command = rq_command req, rs_id = rq_id req,
       rs_status = if ok then Success else BadRequest, rs_body_len = len_u32 body, rs_body = body\<rparr>)"

lemma ex_answers:
  assumes "rq_command req \<in> {CmdSubAllType, CmdSubTrades, CmdSubOrderBook}
      \<longrightarrow> dec_subscribe_request rc (rq_body req) \<noteq> None"
    and "chan_live (eh_tx h)"
  shows "\<exists>h'. ex_call rc (H_Request req) h = Inr h'
    \<and> ch_sent (eh_tx h') = ch_sent (eh_tx h) @ [Response (ex_answer rc req)]"
  using assms ex_send_live[OF assms(2)]
  by (auto simp: ex_on_request_def ex_answer_def ex_subscribed_def ex_unsupported_def Let_def)

lemma ex_answer_simps [simp]:
  "rs_command (ex_answer rc req) = rq_command req" "rs_id (ex_answer rc req) = rq_id req"
  by (simp_all add: ex_answer_def Let_def)

lemma ex_answer_wf:
  assumes "wf_packet (Request req)"
    and "length (enc_subscribe_response rc \<lparr>sub_success = [], sub_failed = []\<rparr>) < 2 ^ 24"
    and "length (enc_link_error rc unsupported_command) < 2 ^ 24"
  shows "wf_packet (Response (ex_answer rc req))"
  using assms by (simp add: ex_answer_def Let_def wf_body_len_u32)

text \<open>The answer back to the waiting caller.\<close>

lemma answer_dispatched:
  assumes "rs_command r \<noteq> Heartbeat" and "rs_command r \<noteq> Auth" and "process_open c"
    and "process_queue c = []" and "0 < process_chan_size (lc_channel_config conf)"
    and "requests c (rs_id r) = Some w"
  shows "\<exists>c'. recv_packet conf pb now utc (Response r) c = Continue c'
    \<and> actions (dispatch c') = actions c @ [Reply w r] \<and> requests (dispatch c') (rs_id r) = None"
  using assms by (simp add: recv_packet_def try_process_def dispatch_def dispatch_response_def act_def Let_def)

text \<open>What \<open>send_request\<close> makes of the answer.\<close>

definition ex_result :: "request \<Rightarrow> convert_error request_error + subscribe_response" where
  "ex_result req =
     (if rq_command req \<in> {CmdSubAllType, CmdSubTrades, CmdSubOrderBook}
      then Inr \<lparr>sub_success = [], sub_failed = []\<rparr>
      else Inl (Link_Error_Response unsupported_command))"

lemma ex_answer_result:
  assumes "rq_command req \<noteq> Heartbeat" and "rq_command req \<noteq> Auth"
    and "dec_subscribe_response pb (enc_subscribe_response rc \<lparr>sub_success = [], sub_failed = []\<rparr>)
      = Some \<lparr>sub_success = [], sub_failed = []\<rparr>"
    and "dec_link_error pb (enc_link_error rc unsupported_command) = Some unsupported_command"
  shows "send_request_result pb (try_from_subscribe pb) (rq_command req) True Send_Done
      (Answered (ex_answer rc req)) = ex_result req"
  using assms
  by (auto simp: send_request_result_def ex_answer_def ex_result_def try_from_subscribe_def
      decode_as_def Let_def)

text \<open>An accepted authentication at the client.\<close>

lemma auth_accepted:
  assumes "rs_command r = Auth" and "rs_status r = Success" and "process_open c" and "process_queue c = []"
    and "chan_live (inner_request_tx c)" and "requests c (rs_id r) = None"
  shows "\<exists>c'. recv_packet conf pb now utc (Response r) c = Continue c' \<and> is_authed c'
    \<and> ch_sent (inner_request_tx c') = ch_sent (inner_request_tx c)
        @ subscribe_packets pb (lc_subscribes conf) (request_id_gen c)
    \<and> actions (dispatch c') = actions c @ [On_Connected]"
  using assms by (simp add: recv_packet_def on_auth_response_def dispatch_def dispatch_response_def
      act_def flow_simps Let_def)

section \<open>Properties\<close>

text \<open>C8: A request to the example server and back.  A caller's \<open>send_request\<close> under any command
  but the two reserved ones puts one packet on the connection; it crosses the wire; the server's
  main loop and callback loop hand it to the handler; the handler answers on the connection's
  sender; the answer crosses the wire, and the client gives it to that very caller and forgets
  the request.  The caller gets the decoded \<open>SubscribeResponse\<close> for the three commands the
  example serves, and the error 400 of the server for all others.  The loops and queues of both
  sides are idle but otherwise in any state.\<close>

theorem request_exchange:
  assumes "deku_io rd wr" and "cmd \<noteq> Heartbeat" and "cmd \<noteq> Auth" and "length body < 2 ^ 24"
    and "cmd \<in> {CmdSubAllType, CmdSubTrades, CmdSubOrderBook} \<longrightarrow> dec_subscribe_request rc body \<noteq> None"
    and "dec_subscribe_response pb (enc_subscribe_response rc \<lparr>sub_success = [], sub_failed = []\<rparr>)
      = Some \<lparr>sub_success = [], sub_failed = []\<rparr>"
    and "dec_link_error pb (enc_link_error rc unsupported_command) = Some unsupported_command"
    and "length (enc_subscribe_response rc \<lparr>sub_success = [], sub_failed = []\<rparr>) < 2 ^ 24"
    and "length (enc_link_error rc unsupported_command) < 2 ^ 24"
    and "request_queue c = []" and "process_queue c = []" and "process_open c"
    and "chan_live (inner_request_tx c)" and "0 < process_chan_size (lc_channel_config conf)"
    and "recved_open s" and "recved_queue s = []" and "0 < process_chan_size (ls_channel_config sconf)"
    and "chan_live (eh_tx h)"
  shows "\<exists>req r c' s' h' c''.
      take_request True (api_request cmd body w c) = Continue c'
    \<and> ch_sent (inner_request_tx c') = ch_sent (inner_request_tx c) @ [Request req]
    \<and> (\<exists>bs. packet_to_bytes wr (Request req) = Inr bs
        \<and> packet_from_bytes rd (bs @ rest, 0) = Inr ((rest, 0), Request req))
    \<and> conn_step sconf pb on_auth (Peer_Packet now (Request req)) s = Continue s'
    \<and> recved_queue s' = [Request req]
    \<and> callback_step pb (Cb_Packet (Request req)) cb = Continue (cb\<lparr>spawned := spawned cb @ [H_Request req]\<rparr>)
    \<and> ex_call rc (H_Request req) h = Inr h'
    \<and> ch_sent (eh_tx h') = ch_sent (eh_tx h) @ [Response r]
    \<and> (\<exists>bs. packet_to_bytes wr (Response r) = Inr bs
        \<and> packet_from_bytes rd (bs @ rest', 0) = Inr ((rest', 0), Response r))
    \<and> recv_packet conf pb later utc (Response r) c' = Continue c''
    \<and> actions (dispatch c'') = actions c @ [Reply w r] \<and> requests (dispatch c'') (rs_id r) = None
    \<and> send_request_result pb (try_from_subscribe pb) cmd True Send_Done (Answered r)
        = (if cmd \<in> {CmdSubAllType, CmdSubTrades, CmdSubOrderBook}
           then Inr \<lparr>sub_success = [], sub_failed = []\<rparr>
           else Inl (Link_Error_Response unsupported_command))"
proof -
  let ?req = "request_of cmd (request_id_gen c) body"
  let ?r = "ex_answer rc ?req"
  have req: "rq_command ?req = cmd" "rq_id ?req = request_id_trim (request_id_gen c)" "rq_body ?req = body"
    by (simp_all add: request_of_def)
  have wf: "wf_packet (Request ?req)"
    using assms(4) request_id_trim_bound[of "request_id_gen c"] by (simp add: request_of_def wf_body_len_u32)
  obtain c' where c': "take_request True (api_request cmd body w c) = Continue c'"
    "ch_sent (inner_request_tx c') = ch_sent (inner_request_tx c) @ [Request ?req]"
    "requests c' = (requests c)(request_id_trim (request_id_gen c) \<mapsto> w)"
    "process_queue c' = process_queue c" "process_open c' = process_open c" "actions c' = actions c"
    using request_sent[OF assms(2,3,10,13), of body w] by blast
  obtain s' where s': "conn_step sconf pb on_auth (Peer_Packet now (Request ?req)) s = Continue s'"
    "recved_queue s' = [Request ?req]"
    "callback_step pb (Cb_Packet (Request ?req)) cb = Continue (cb\<lparr>spawned := spawned cb @ [H_Request ?req]\<rparr>)"
    using request_handed[of ?req s sconf pb on_auth now cb] assms(2,3,15-17) req by auto
  obtain h' where h': "ex_call rc (H_Request ?req) h = Inr h'"
    "ch_sent (eh_tx h') = ch_sent (eh_tx h) @ [Response ?r]"
    using ex_answers[of ?req rc h] assms(5,18) req by auto
  obtain c'' where c'': "recv_packet conf pb later utc (Response ?r) c' = Continue c''"
    "actions (dispatch c'') = actions c' @ [Reply w ?r]" "requests (dispatch c'') (rs_id ?r) = None"
    using answer_dispatched[of ?r c' conf w pb later utc] assms(2,3,11,12,14) c' req by auto
  have res: "send_request_result pb (try_from_subscribe pb) cmd True Send_Done (Answered ?r)
      = (if cmd \<in> {CmdSubAllType, CmdSubTrades, CmdSubOrderBook}
         then Inr \<lparr>sub_success = [], sub_failed = []\<rparr> else Inl (Link_Error_Response unsupported_command))"
    using ex_answer_result[of ?req pb rc] assms(2,3,6,7) req by (simp add: ex_result_def)
  note wires = wire_roundtrip[OF assms(1) wf, of rest]
    wire_roundtrip[OF assms(1) ex_answer_wf[OF wf assms(8,9)], of rest']
  show ?thesis
    using c' s' h' c'' res wires
    by (intro exI[of _ ?req] exI[of _ ?r] exI[of _ c'] exI[of _ s'] exI[of _ h'] exI[of _ c''] conjI) auto
qed

definition plain_replies :: reply_codecs where
  "plain_replies = \<lparr>enc_auth_response = \<lambda>_. [1], enc_subscribe_response = \<lambda>_. [2],
     enc_link_error = \<lambda>_. [3], dec_subscribe_request = \<lambda>_. Some
       \<lparr>sub_all = True, counter_ids = [], span_index = 0\<rparr>\<rparr>"

definition reply_prost :: prost where
  "reply_prost = test_prost\<lparr>dec_subscribe_response := \<lambda>_. Some \<lparr>sub_success = [], sub_failed = []\<rparr>,
     dec_link_error := \<lambda>_. Some unsupported_command\<rparr>"

theorem request_exchange_witness:
  "\<exists>r. send_request_result reply_prost (try_from_subscribe reply_prost) CmdSubDepth True Send_Done (Answered r)
     = Inl (Link_Error_Response \<lparr>le_code = 400, le_msg = ''unsupported command''\<rparr>)"
proof -
  have codec: "dec_subscribe_response reply_prost (enc_subscribe_response plain_replies
      \<lparr>sub_success = [], sub_failed = []\<rparr>) = Some \<lparr>sub_success = [], sub_failed = []\<rparr>"
    "dec_link_error reply_prost (enc_link_error plain_replies unsupported_command) = Some unsupported_command"
    "length (enc_subscribe_response plain_replies \<lparr>sub_success = [], sub_failed = []\<rparr>) < 2 ^ 24"
    "length (enc_link_error plain_replies unsupported_command) < 2 ^ 24"
    by (simp_all add: reply_prost_def plain_replies_def)
  have idle: "request_queue (client_new live_chan :: nat client_state) = []"
    "process_queue (client_new live_chan :: nat client_state) = []"
    "process_open (client_new live_chan :: nat client_state)"
    "chan_live (inner_request_tx (client_new live_chan :: nat client_state))"
    "0 < process_chan_size (lc_channel_config test_conf)"
    "recved_open (conn_init ''h'' 0 0 live_chan)" "recved_queue (conn_init ''h'' 0 0 live_chan) = []"
    "0 < process_chan_size (ls_channel_config one_client_conf)"
    "chan_live (eh_tx (new_handler Map.empty live_chan))"
    by (simp_all add: client_new_def conn_init_def new_handler_def test_conf_def one_client_conf_def
        default_channel_config_def)
  from request_exchange[of rd_msb wr_msb CmdSubDepth "[]", OF msb.deku_io_axioms _ _ _ _ codec idle,
      of 7 "[]" "\<lambda>_ _ _. True" 1 "callback_init ''h''" "[]" 2 0]
  show ?thesis by (auto simp: unsupported_command_def)
qed

text \<open>C18: Logging in to the example server.  The packet a client starts a connection with makes the
  example handler count the user and answer on the connection's sender; the server registers the
  connection under the client's name; the answer crosses the wire and makes the client
  authenticated: it sends its configured subscriptions, in order, under its next ids, and calls
  \<open>on_connected\<close>, unless a request still pending from before has the id of the authentication.\<close>

theorem login_exchange:
  assumes "deku_io rd wr"
    and "dec_auth_request pb (enc_auth_request pb (client_auth conf)) = Some (client_auth conf)"
    and "length (enc_auth_response rc \<lparr>arp_auth_info = Some (client_info conf)\<rparr>) < 2 ^ 24"
    and "auth_packet (start_connection conf pb se c0) = Some p"
    and "count_of h (lc_username conf) < 2 ^ 31 - 1" and "chan_live (eh_tx h)"
    and "process_open c" and "process_queue c = []" and "chan_live (inner_request_tx c)"
    and "requests c (get_request_id p) = None"
  shows "\<exists>h' r t c'. ex_on_auth rc (get_request_id p) (client_info conf) h = Inr (True, h')
    \<and> count_of h' (lc_username conf) = count_of h (lc_username conf) + 1
    \<and> ch_sent (eh_tx h') = ch_sent (eh_tx h) @ [Response r]
    \<and> conn_step sconf pb (\<lambda>_ _ _. True) (Peer_Packet now p) s = Continue t \<and> is_auth_ok t
    \<and> mgmt_signals t = mgmt_signals s
        @ [Conn_New (lc_client_name conf @ ''@'' @ peer_address s) (this_conn s)]
    \<and> (\<exists>bs. packet_to_bytes wr (Response r) = Inr bs
        \<and> packet_from_bytes rd (bs @ rest, 0) = Inr ((rest, 0), Response r))
    \<and> recv_packet conf pb later utc (Response r) c = Continue c' \<and> is_authed c'
    \<and> ch_sent (inner_request_tx c') = ch_sent (inner_request_tx c)
        @ subscribe_packets pb (lc_subscribes conf) (request_id_gen c)
    \<and> actions (dispatch c') = actions c @ [On_Connected]"
proof -
  let ?i = "request_id_trim (request_id_gen c0)"
  let ?r = "response_new Auth ?i Success (enc_auth_response rc \<lparr>arp_auth_info = Some (client_info conf)\<rparr>)"
  have p: "p = new_auth pb (request_id_gen c0) (lc_username conf) (lc_password conf) (lc_client_name conf)"
    using assms(4) by (simp add: start_connection_auth)
  then have id: "get_request_id p = ?i" by (simp add: new_auth_def Let_def)
  obtain h' where h': "ex_on_auth rc ?i (client_info conf) h = Inr (True, h')"
    "ch_sent (eh_tx h') = ch_sent (eh_tx h) @ [Response ?r]"
    using ex_on_auth_answers[of h "client_info conf" rc ?i] assms(5,6) by (auto simp: client_info_def)
  have num: "count_of h' (lc_username conf) = count_of h (lc_username conf) + 1"
    using ex_on_auth_count[OF h'(1)] by (simp add: client_info_def)
  obtain t where t: "conn_step sconf pb (\<lambda>_ _ _. True) (Peer_Packet now p) s = Continue t" "is_auth_ok t"
    "mgmt_signals t = mgmt_signals s @ [Conn_New (lc_client_name conf @ ''@'' @ peer_address s) (this_conn s)]"
    using on_peer_auth[OF assms(2), of sconf "\<lambda>_ _ _. True" now "request_id_gen c0" s] p by auto
  have wf: "wf_packet (Response ?r)"
    using assms(3) request_id_trim_bound[of "request_id_gen c0"] by (simp add: response_new_def wf_body_len_u32)
  have "rs_command ?r = Auth" "rs_status ?r = Success" "requests c (rs_id ?r) = None"
    using assms(10) by (simp_all add: response_new_def id)
  from auth_accepted[OF this(1,2) assms(7,8,9) this(3)]
  obtain c' where "recv_packet conf pb later utc (Response ?r) c = Continue c'" "is_authed c'"
    "ch_sent (inner_request_tx c') = ch_sent (inner_request_tx c)
        @ subscribe_packets pb (lc_subscribes conf) (request_id_gen c)"
    "actions (dispatch c') = actions c @ [On_Connected]" by blast
  with h' num t wire_roundtrip[OF assms(1) wf, of rest] show ?thesis
    unfolding id by (intro exI[of _ h'] exI[of _ ?r] exI[of _ t] exI[of _ c'] conjI) blast+
qed

theorem login_exchange_witness:
  "\<exists>h' t. ex_on_auth plain_replies 1 (client_info test_conf) (new_handler Map.empty live_chan) = Inr (True, h')
    \<and> count_of h' ''u'' = 1
    \<and> conn_step one_client_conf test_prost (\<lambda>_ _ _. True)
        (Peer_Packet 3 (new_auth test_prost 1 ''u'' ''p'' ''c'')) (conn_init ''h'' 0 0 live_chan) = Continue t
    \<and> mgmt_signals t = [Conn_New ''c@h'' 0]"
proof -
  have codec: "dec_auth_request test_prost (enc_auth_request test_prost (client_auth test_conf))
      = Some (client_auth test_conf)"
    "length (enc_auth_response plain_replies \<lparr>arp_auth_info = Some (client_info test_conf)\<rparr>) < 2 ^ 24"
    by (simp_all add: test_prost_def plain_replies_def)
  have auth: "auth_packet (start_connection test_conf test_prost lost_session (client_new live_chan))
      = Some (new_auth test_prost 1 ''u'' ''p'' ''c'')"
    by (simp add: start_connection_auth client_new_def test_conf_def)
  have idle: "count_of (new_handler Map.empty live_chan) (lc_username test_conf) = 0"
    "chan_live (eh_tx (new_handler Map.empty live_chan))"
    by (simp_all add: new_handler_def count_of_def)
  have client: "process_open (client_new live_chan :: nat client_state)"
    "process_queue (client_new live_chan :: nat client_state) = []"
    "chan_live (inner_request_tx (client_new live_chan :: nat client_state))"
    "requests (client_new live_chan :: nat client_state) (get_request_id (new_auth test_prost 1 ''u'' ''p'' ''c'')) = None"
    by (simp_all add: client_new_def)
  have id: "get_request_id (new_auth test_prost 1 ''u'' ''p'' ''c'') = 1"
    by (simp add: new_auth_def request_id_trim_def Let_def)
  from login_exchange[OF msb.deku_io_axioms codec auth _ idle(2) client, of one_client_conf 3
      "conn_init ''h'' 0 0 live_chan" "[]" 4 5]
  show ?thesis using idle(1) by (auto simp: id test_conf_def conn_init_def)
qed

end
