(* ===== verification/Startup.thy ===== *)
theory Startup
  imports Link_Client Link_Server Net_Utils
begin

text \<open>
  The beginnings of \<open>Client::link\<close> and \<open>Server::serve_linker\<close>, before they spawn their tasks:
  the addresses are resolved, and a failure is a panic (\<open>expect\<close>); then the channels are made
  through which the public calls reach the tasks.
\<close>

definition link_start ::
    "(string \<Rightarrow> socket_addr list option) \<Rightarrow> link_client_config \<Rightarrow> packet chan
      \<Rightarrow> (unit, peer_addr \<times> peer_addr list \<times> 'w client_state) res" where
  "link_start dns conf tx =
     (case addr_resolve dns (lc_addr conf) (lc_backup_config conf) of
        Inl e \<Rightarrow> Inl Panic
      | Inr (master, backups) \<Rightarrow> Inr (master, backups, client_new tx))"

text \<open>\<open>seed\<close> is the key for signing connection ids, if the random source yields one.\<close>

definition serve_linker_start ::
    "(string \<Rightarrow> socket_addr list option) \<Rightarrow> 'key option \<Rightarrow> packet chan \<Rightarrow> server_signal chan \<Rightarrow> server
      \<Rightarrow> (unit, peer_addr \<times> 'key \<times> server) res" where
  "serve_linker_start dns seed packets_tx signals_tx s =
     (case addr_resolve dns (ls_listen_addr (sv_conf s)) None of
        Inl e \<Rightarrow> Inl Panic
      | Inr (listen_addr, backups) \<Rightarrow>
          (case seed of
             None \<Rightarrow> Inl Panic
           | Some key \<Rightarrow>
               Inr (listen_addr, key,
                 s\<lparr>sv_send_tx := Some packets_tx, sv_signal_tx := Some signals_tx\<rparr>)))"

section \<open>Resolution\<close>

definition no_ipv4 :: "(string \<Rightarrow> socket_addr list option) \<Rightarrow> string \<Rightarrow> bool" where
  "no_ipv4 dns addr \<longleftrightarrow> (\<forall>as. dns addr = Some as \<longrightarrow> (\<forall>a \<in> set as. \<not> is_ipv4 (sa_ip a)))"

lemma addr_resolve_fails:
  "(\<exists>e. addr_resolve dns addr backup = Inl e) \<longleftrightarrow>
     no_ipv4 dns addr \<or> (\<exists>b. backup = Some b \<and> dns (bk_addr b) = None)"
proof (cases "dns addr")
  case None
  then show ?thesis by (simp add: no_ipv4_def addr_resolve_def resolve_v4_def)
next
  case (Some as)
  show ?thesis
  proof (cases "filter (\<lambda>a. is_ipv4 (sa_ip a)) as")
    case Nil
    then show ?thesis
      using Some by (simp add: no_ipv4_def addr_resolve_def resolve_v4_def filter_empty_conv)
  next
    case (Cons a rest)
    then have "\<not> no_ipv4 dns addr" using Some by (auto simp: no_ipv4_def filter_eq_Cons_iff)
    then show ?thesis
      using Some Cons by (auto simp: addr_resolve_def resolve_v4_def split: option.split)
  qed
qed

lemma addr_resolve_ipv4:
  assumes "addr_resolve dns addr backup = Inr (m, bs)" and "a \<in> set (m # bs)"
  shows "is_ipv4 (sa_ip (pa_socket_addr a))"
proof -
  have v4: "is_ipv4 (sa_ip (pa_socket_addr p))" if "resolve_v4 dns x = Inr ps" "p \<in> set ps" for x ps p
    using that by (auto simp: resolve_v4_def split: option.splits)
  obtain rest where rest: "resolve_v4 dns addr = Inr (m # rest)"
    "bs = rest \<or> (\<exists>b more. resolve_v4 dns b = Inr more \<and> bs = rest @ more)"
  proof -
    obtain ps where ps: "resolve_v4 dns addr = Inr ps"
      using assms(1) by (auto simp: addr_resolve_def and_then_Inr_iff)
    then obtain p rest where "ps = p # rest"
      using assms(1) by (cases ps) (auto simp: addr_resolve_def)
    then show ?thesis
      using that[of rest] assms(1) ps
      by (cases backup) (auto simp: addr_resolve_def and_then_Inr_iff)
  qed
  from rest(2) show ?thesis
  proof
    assume "bs = rest"
    then show ?thesis using v4[OF rest(1)] assms(2) by simp
  next
    assume "\<exists>b more. resolve_v4 dns b = Inr more \<and> bs = rest @ more"
    then obtain b more where "resolve_v4 dns b = Inr more" "bs = rest @ more" by blast
    then show ?thesis using v4[OF rest(1)] v4[of b more] assms(2) by auto
  qed
qed

section \<open>Properties\<close>


definition one_host :: "string \<Rightarrow> socket_addr list option" where
  "one_host name = (if name = ''h:1'' then Some [v4_src] else None)"

definition one_host_server :: server where
  "one_host_server = server_new \<lparr>ls_listen_addr = ''h:1'', ls_healthy_config = default_healthy_config,
     ls_channel_config = default_channel_config, ls_buffer_config = default_buffer_config,
     ls_quiche_config = default_quiche_config, ls_timeout_config = default_timeout_config\<rparr>"


end
