(* ===== verification/Link_Equivalence.thy ===== *)
theory Link_Equivalence
  imports Link_Theorems "HOL-Library.Sublist"
begin

text \<open>
  The incremental read loop against a reference: \<open>stream_packets\<close> decodes packet after packet
  from the whole input at once.  The loop decodes from a reused buffer, only when it holds as
  many bytes as the last header asked for; it delivers the same packets on any input.
\<close>

section \<open>The reference\<close>

function stream_packets :: "bit_read \<Rightarrow> bytes \<Rightarrow> packet list" where
  "stream_packets rd bs =
     (case packet_from_bytes rd (bs, 0) of
        Inl e \<Rightarrow> []
      | Inr ((rest, i), p) \<Rightarrow>
          if i = 0 \<and> length rest < length bs then p # stream_packets rd rest else [])"
  by pat_completeness auto
termination
  by (relation "measure (\<lambda>(rd, bs). length bs)") auto

declare stream_packets.simps [simp del]

section \<open>Waiting for a packet\<close>

context deku_io
begin

definition no_packet :: "bytes \<Rightarrow> bool" where
  "no_packet bs \<longleftrightarrow> (\<forall>p rest. wf_packet p \<longrightarrow> bs \<noteq> wire p @ rest)"

definition patient :: "nat \<Rightarrow> bytes \<Rightarrow> bool" where
  "patient need bs \<longleftrightarrow>
     (\<forall>p rest ext. wf_packet p \<longrightarrow> bs @ ext = wire p @ rest \<longrightarrow> need \<le> total_bytes p)"

definition waiting :: "read_state \<Rightarrow> bool" where
  "waiting s \<longleftrightarrow> no_packet (sb_bytes (packet_buffer s))
     \<and> patient (need_size s) (sb_bytes (packet_buffer s))"

lemma stream_packets_wire:
  assumes "wf_packet p"
  shows "stream_packets rd (wire p @ bs) = p # stream_packets rd bs"
proof -
  have "packet_from_bytes rd (wire p @ bs, 0) = Inr ((bs, 0), p)"
    using assms by (simp add: packet_from_bytes_iff)
  then show ?thesis
    using length_wire[OF assms] total_bytes_pos[of p]
    by (simp add: stream_packets.simps[of rd "wire p @ bs"])
qed

lemma stream_packets_wires:
  "\<forall>p \<in> set ps. wf_packet p \<Longrightarrow> stream_packets rd (wires ps @ bs) = ps @ stream_packets rd bs"
  by (induction ps) (auto simp: stream_packets_wire)

lemma stream_packets_none:
  assumes "no_packet bs"
  shows "stream_packets rd bs = []"
proof -
  have "packet_from_bytes rd (bs, 0) \<noteq> Inr ((rest, 0), p)" for rest p
    using assms by (auto simp: packet_from_bytes_iff no_packet_def)
  then show ?thesis by (subst stream_packets.simps) (auto split: sum.split)
qed

lemma no_packet_Nil: "no_packet []"
proof -
  have "wire p \<noteq> []" if "wf_packet p" for p
    using length_wire[OF that] total_bytes_pos[of p] by auto
  then show ?thesis by (simp add: no_packet_def)
qed

lemma patient_min: "patient MIN_PACKET_HEADER_SIZE bs"
  using total_bytes_ge by (simp add: patient_def)

lemma patient_append: "patient need bs \<Longrightarrow> patient need (bs @ b)"
  by (auto simp: patient_def)

lemma patient_short: "patient need bs \<Longrightarrow> length bs < need \<Longrightarrow> no_packet bs"
  unfolding patient_def no_packet_def using length_wire
  by (metis append_Nil2 le_add1 length_append not_less order_trans)

lemma parse_loop_waits:
  assumes "parse_loop rd input 0 (length input) c tx = (Inr (d, need), tx')"
  shows "\<exists>k. d = c + k \<and> no_packet (drop k input) \<and> patient need (drop k input)"
  using assms
proof (induction input arbitrary: c tx rule: length_induct)
  case (1 input)
  show ?case
  proof (cases "header_from_bytes rd (input, 0)")
    case (Inl e)
    then have stop: "e = DekuIncomplete" "d = c" "need = MIN_PACKET_HEADER_SIZE"
      using "1.prems" by (cases e; simp add: parse_loop.simps[of rd input])+
    have "no_packet input"
      unfolding no_packet_def
    proof (intro allI impI notI)
      fix p rest assume "wf_packet p" "input = wire p @ rest"
      then show False
        using header_from_prefix[of p input "[]" rest] length_wire[of p] total_bytes_wf[of p] Inl
        by simp
    qed
    then show ?thesis using stop patient_min by (auto intro: exI[of _ 0])
  next
    case (Inr ph)
    obtain pos h where ph: "ph = (pos, h)" by (cases ph)
    show ?thesis
    proof (cases "need_bytes h \<le> length input")
      case False
      then have stop: "d = c" "need = need_bytes h"
        using "1.prems" Inr ph by (auto simp: parse_loop.simps[of rd input])
      have "patient need input"
        unfolding patient_def
      proof (intro allI impI)
        fix p rest ext assume "wf_packet p" "input @ ext = wire p @ rest"
        then show "need \<le> total_bytes p"
          using header_from_prefix[of p input ext rest] Inr ph stop
          by (auto split: if_splits)
      qed
      moreover from this have "no_packet input" by (rule patient_short) (use False stop in simp)
      ultimately show ?thesis using stop by (auto intro: exI[of _ 0])
    next
      case True
      obtain p rest where p: "packet_from_bytes rd (input, 0) = Inr ((rest, 0), p)" "header_of p = h"
        using header_then_packet[of input pos h] Inr ph True by blast
      then obtain wf: "wf_packet p" and input: "input = wire p @ rest"
        by (auto simp: packet_from_bytes_iff)
      then have len: "length input = total_bytes p + length rest" by (simp add: length_wire)
      obtain tx1 where tx1: "chan_send p tx = Some tx1"
        using "1.prems" Inr ph True p len
        by (cases "chan_send p tx") (auto simp: parse_loop.simps[of rd input])
      have "parse_loop rd rest 0 (length rest) (c + total_bytes p) tx1 = (Inr (d, need), tx')"
        using "1.prems" Inr ph True p len tx1 by (simp add: parse_loop.simps[of rd input] not_less)
      moreover have "length rest < length input" using len total_bytes_pos[of p] by simp
      ultimately obtain k where "d = c + total_bytes p + k" "no_packet (drop k rest)"
        "patient need (drop k rest)" using "1.IH" by blast
      then show ?thesis
        by (intro exI[of _ "total_bytes p + k"]) (simp add: input length_wire[OF wf, symmetric])
    qed
  qed
qed

lemma link_read_parse_waits:
  assumes "sb_inv (packet_buffer s)" and "link_read_parse rd s = Continue s'"
  shows "waiting s'"
proof -
  let ?in = "sb_bytes (packet_buffer s)"
  obtain d need tx buf where loop: "parse_loop rd ?in 0 (length ?in) 0 (response_tx s) = (Inr (d, need), tx)"
    and free: "sb_free (packet_buffer s) d = Inr buf"
    and s': "s' = s\<lparr>packet_buffer := buf, need_size := need, response_tx := tx\<rparr>"
    using assms(2)
    by (auto simp: link_read_parse_def sb_specs assms(1) parse_packet_buf_def
        split: prod.splits sum.splits)
  have "d \<le> length ?in" using parse_loop_any[OF loop] by auto
  then have "sb_bytes buf = drop d ?in" using sb_free_spec[OF assms(1), of d] free by auto
  then show ?thesis using parse_loop_waits[OF loop] by (auto simp: waiting_def s')
qed

lemma link_read_step_waits:
  assumes inv: "sb_inv (packet_buffer s)" and "waiting s" and "link_read_step rd b s = Continue s'"
  shows "waiting s'"
proof -
  obtain buf where room: "sb_make_room (packet_buffer s) (length b) = Inr (Inr buf)"
    using assms(3) by (auto simp: link_read_step_def split: sum.splits)
  then have buf: "sb_inv buf" "sb_bytes buf = sb_bytes (packet_buffer s)"
    using sb_make_room_cases[OF inv, of "length b"] by auto
  obtain buf' where push: "sb_push_slice buf b = Inr buf'"
    using assms(3) room by (auto simp: link_read_step_def split: sum.splits)
  then have "length b \<le> sb_room buf" using sb_push_slice_full[OF buf(1), of b] by (metis Inl_Inr_False not_less)
  then have buf': "sb_inv buf'" "sb_bytes buf' = sb_bytes (packet_buffer s) @ b"
    using sb_push_slice_spec[OF buf(1)] push buf(2) by (metis Inr_inject)+
  let ?s = "s\<lparr>packet_buffer := buf'\<rparr>"
  let ?body = "if need_size s \<le> length (sb_bytes buf') then link_read_parse rd ?s else Continue ?s"
  have "link_read_step rd b s = ctl_then ?body
      (\<lambda>t. case sb_reuse_if (packet_buffer t) of
             Inl e \<Rightarrow> Break (buf_fault e) t
           | Inr (_, buf'') \<Rightarrow> Continue (t\<lparr>packet_buffer := buf''\<rparr>))"
    by (simp add: link_read_step_def room push sb_specs buf' Let_def)
  then obtain t r buf'' where t: "?body = Continue t" "sb_reuse_if (packet_buffer t) = Inr (r, buf'')"
    "s' = t\<lparr>packet_buffer := buf''\<rparr>"
    using assms(3) by (cases ?body) (auto split: sum.splits prod.splits)
  have "waiting t \<and> sb_inv (packet_buffer t)"
  proof (cases "need_size s \<le> length (sb_bytes buf')")
    case True
    then have parse: "link_read_parse rd ?s = Continue t" using t(1) by simp
    then show ?thesis
      using link_read_parse_waits[of ?s t] link_read_parse_any[of ?s t] buf'(1) by auto
  next
    case False
    have "patient (need_size s) (sb_bytes buf')"
      using assms(2) patient_append by (simp add: waiting_def buf'(2))
    then show ?thesis using False t(1) patient_short buf'(1) by (auto simp: waiting_def)
  qed
  then show ?thesis
    using sb_reuse_if_spec[of "packet_buffer t"] t(2,3)
    by (metis (no_types, lifting) Inr_inject prod.inject read_state.select_convs(1,2)
        read_state.surjective read_state.update_convs(1) waiting_def)
qed

lemma link_read_loop_waits:
  "sb_inv (packet_buffer s) \<Longrightarrow> waiting s \<Longrightarrow> link_read_loop rd (map Some bs) s = Continue s' \<Longrightarrow> waiting s'"
proof (induction bs arbitrary: s)
  case (Cons b bs)
  then obtain t where t: "link_read_step rd b s = Continue t"
    "link_read_loop rd (map Some bs) t = Continue s'"
    by (cases "link_read_step rd b s") (auto simp: link_read_loop_Cons)
  moreover have "sb_inv (packet_buffer t)" using link_read_step_any[OF Cons.prems(1)] t(1) by blast
  ultimately show ?case using Cons.IH link_read_step_waits Cons.prems(1,2) by blast
qed (simp add: link_read_loop_def)

lemma read_loop_reference:
  assumes "cap < usize_bound" and r_def: "r = link_read_loop rd (map Some bs) (link_read_init cap tx)"
  shows "\<exists>ds. ch_sent (response_tx (ctl_state r)) = ch_sent tx @ ds
    \<and> prefix ds (stream_packets rd (concat bs))
    \<and> (\<forall>s. r = Continue s \<longrightarrow> ds = stream_packets rd (concat bs)
         \<and> concat bs = wires ds @ sb_bytes (packet_buffer s))"
proof -
  let ?s = "link_read_init cap tx"
  have inv: "sb_inv (packet_buffer ?s)" and none: "sb_bytes (packet_buffer ?s) = []"
    using assms(1) by (simp_all add: link_read_init_def sb_new_inv)
  have start: "waiting ?s"
    using none no_packet_Nil patient_min by (simp add: waiting_def link_read_init_def)
  obtain rest where f: "faithful (ch_sent tx) (concat bs) (response_tx (ctl_state r)) rest"
    and rest: "\<forall>s. r = Continue s \<longrightarrow> rest = sb_bytes (packet_buffer s)"
    using read_loop_faithful[OF inv, of bs "ctl_state r"] none
    by (cases r) (force simp: r_def link_read_init_def)+
  then obtain ds where ds: "ch_sent (response_tx (ctl_state r)) = ch_sent tx @ ds"
    "\<forall>p \<in> set ds. wf_packet p" "concat bs = wires ds @ rest" by (auto simp: faithful_def)
  then have all: "stream_packets rd (concat bs) = ds @ stream_packets rd rest"
    by (simp add: stream_packets_wires)
  have "stream_packets rd rest = []" if "r = Continue s" for s
    using link_read_loop_waits[OF inv start, of bs s] that rest
    by (simp add: r_def waiting_def stream_packets_none)
  with ds all rest show ?thesis by (intro exI[of _ ds]) auto
qed

end

section \<open>Properties\<close>

text \<open>C4: The read loop is equivalent to parsing the whole input at once.  On any input, however
  cut into chunks, hostile or not, and whenever the consumer goes away, what the loop delivers
  is the beginning of what the reference decodes from all bytes received; and if the loop goes
  on, it is all of it, and the buffer holds exactly the bytes behind it.  So the chunking has no
  influence on what is delivered.\<close>

theorem link_read_loop_equals_reference:
  assumes "deku_io rd wr" and "cap < usize_bound"
  shows "\<exists>ds. ch_sent (response_tx (ctl_state (link_read_loop rd (map Some bs) (link_read_init cap tx))))
        = ch_sent tx @ ds
    \<and> prefix ds (stream_packets rd (concat bs))
    \<and> (\<forall>s. link_read_loop rd (map Some bs) (link_read_init cap tx) = Continue s \<longrightarrow>
         ds = stream_packets rd (concat bs)
         \<and> drop (length (concat bs) - length (sb_bytes (packet_buffer s))) (concat bs)
             = sb_bytes (packet_buffer s))"
proof -
  obtain ds where "ch_sent (response_tx (ctl_state (link_read_loop rd (map Some bs) (link_read_init cap tx))))
        = ch_sent tx @ ds" "prefix ds (stream_packets rd (concat bs))"
    "\<forall>s. link_read_loop rd (map Some bs) (link_read_init cap tx) = Continue s \<longrightarrow>
       ds = stream_packets rd (concat bs)
       \<and> concat bs = deku_io.wires wr ds @ sb_bytes (packet_buffer s)"
    using deku_io.read_loop_reference[OF assms refl, of bs tx] by blast
  moreover have "drop (length xs - length rest) xs = rest" if "xs = ys @ rest" for xs ys rest :: bytes
    using that by simp
  ultimately show ?thesis by blast
qed

theorem link_read_loop_equals_reference_witness:
  "\<exists>ds. ch_sent (response_tx (ctl_state (link_read_loop rd_msb
        [Some (take 9 overflow_bytes), Some (drop 9 overflow_bytes)] (link_read_init 10 live_chan)))) = ds
     \<and> prefix ds (stream_packets rd_msb overflow_bytes)"
proof -
  have "concat [take 9 overflow_bytes, drop 9 overflow_bytes] = overflow_bytes" by simp
  then show ?thesis
    using link_read_loop_equals_reference[OF msb.deku_io_axioms, of 10
      "[take 9 overflow_bytes, drop 9 overflow_bytes]" live_chan]
    unfolding list.map live_chan_simps append_Nil by auto
qed

end
