(* ===== verification/Metrics.thy ===== *)
theory Metrics
  imports Link_Config
begin

text \<open>
  The crate \<open>metrics\<close>: the label structs and bucket bounds of \<open>lib.rs\<close>, the recording functions
  of \<open>general.rs\<close>, \<open>receive.rs\<close>, \<open>process.rs\<close>, \<open>send.rs\<close> and \<open>dconf.rs\<close>, what the \<open>register\<close>
  functions export, and the state clock of \<open>state_metric.rs\<close>.

  The library \<open>prometheus_client\<close> is a parameter \<open>lib\<close>: what one call of a method of a metric
  does to the process-wide values.  The locale \<open>counter_store\<close> states what its counters promise.
  A histogram observes the duration as a whole number of micro- or milliseconds; the cast of
  that number to \<open>f64\<close>, exact below \<open>2 ^ 53\<close>, is left out.  The HTTP server is not modelled.
\<close>

section \<open>Labels\<close>

record stream_label =
  sl_upstream :: string
  sl_sample :: string

record downstream_label =
  dl_downstream :: string
  dl_sample :: string

record stream_with_msg_label =
  ml_upstream :: string
  ml_sample :: string
  ml_msg :: string

record log_label =
  log_msg :: string

record dconf_label =
  dc_app_name :: string
  dc_namespace :: string
  dc_env :: string
  dc_version :: string
  dc_id :: string
  dc_msg :: string

datatype label =
    Stream_Label stream_label | Downstream_Label downstream_label
  | Stream_With_Msg_Label stream_with_msg_label | Log_Label log_label | Dconf_Label dconf_label

section \<open>Metric families and the calls of the library\<close>

datatype family =
    INFO_MSG_COUNTER | WARNING_MSG_COUNTER | FATAL_MSG_COUNTER | MSG_GAUGE
  | RECEIVE_COUNTER | RECEIVE_BYTES_COUNTER | RECEIVE_STATUS_COUNTER | RECEIVE_LATENCY_HISTOGRAM
  | OPERATION_COUNTER | EXCEPTION_COUNTER | COST_MICRO_SEC_HISTOGRAM | COST_MILLI_SEC_HISTOGRAM
  | SEND_COUNTER | SEND_BYTES_COUNTER | SEND_STATUS_COUNTER | SEND_LATENCY_HISTOGRAM
  | DCONF_CLIENT_CONFIG_COUNTER | DCONF_CLIENT_RECONNECT_COUNTER

text \<open>\<open>F.get_or_create(l).inc()\<close> and the like.\<close>

datatype metric_call =
    Inc family label | Inc_By family label u64 | Gauge_Set family label i64
  | Observe family label nat

definition as_micros :: "duration \<Rightarrow> nat" where
  "as_micros d = d div 1000"

definition as_millis :: "duration \<Rightarrow> nat" where
  "as_millis d = d div 1000000"

text \<open>The bucket bounds of all histograms, in tenths.\<close>

definition LATENCY_BUCKET :: "nat list" where
  "LATENCY_BUCKET =
     [2, 4, 6, 8, 10,
      20, 40, 60, 80, 100, 120, 140, 160, 180, 200,
      250, 300, 350, 400, 450, 500, 550, 600, 650, 700, 750, 800, 850, 900, 950,
      1000, 1050, 1100, 1150, 1200, 1250, 1300, 1350, 1400, 1450, 1500,
      1600, 1700, 1800, 1900, 2000, 2100, 2200, 2300, 2400, 2500, 2600, 2700, 2800,
      2900, 3000, 3100, 3200, 3300, 3400, 3500, 3600, 3700, 3800, 3900, 4000, 4100,
      4200, 4300, 4400, 4500, 4600, 4700, 4800, 4900, 5000,
      5500, 6000, 6500, 7000, 7500, 8000, 8500, 9000, 9500, 10000, 10500, 11000,
      11500, 12000, 12500, 13000, 13500, 14000, 14500, 15000, 15500, 16000,
      19000, 22000, 25000, 28000, 31000, 34000, 37000, 40000, 43000, 46000, 49000,
      50000,
      55000, 60000, 65000, 70000, 75000, 80000, 85000, 90000, 95000,
      100000]"

section \<open>general.rs\<close>

definition info_msg_count :: "(metric_call \<Rightarrow> 'r \<Rightarrow> 'r) \<Rightarrow> string \<Rightarrow> 'r \<Rightarrow> 'r" where
  "info_msg_count lib msg = lib (Inc INFO_MSG_COUNTER (Log_Label \<lparr>log_msg = msg\<rparr>))"

definition warning_msg_count :: "(metric_call \<Rightarrow> 'r \<Rightarrow> 'r) \<Rightarrow> string \<Rightarrow> 'r \<Rightarrow> 'r" where
  "warning_msg_count lib msg = lib (Inc WARNING_MSG_COUNTER (Log_Label \<lparr>log_msg = msg\<rparr>))"

definition fatal_msg_count :: "(metric_call \<Rightarrow> 'r \<Rightarrow> 'r) \<Rightarrow> string \<Rightarrow> 'r \<Rightarrow> 'r" where
  "fatal_msg_count lib msg = lib (Inc FATAL_MSG_COUNTER (Log_Label \<lparr>log_msg = msg\<rparr>))"

definition msg_gauge :: "(metric_call \<Rightarrow> 'r \<Rightarrow> 'r) \<Rightarrow> string \<Rightarrow> i64 \<Rightarrow> 'r \<Rightarrow> 'r" where
  "msg_gauge lib msg set_to = lib (Gauge_Set MSG_GAUGE (Log_Label \<lparr>log_msg = msg\<rparr>) set_to)"

section \<open>receive.rs\<close>

definition receive_count :: "(metric_call \<Rightarrow> 'r \<Rightarrow> 'r) \<Rightarrow> string \<Rightarrow> string \<Rightarrow> 'r \<Rightarrow> 'r" where
  "receive_count lib upstream sample =
     lib (Inc RECEIVE_COUNTER (Stream_Label \<lparr>sl_upstream = upstream, sl_sample = sample\<rparr>))"

definition receive_bytes_count ::
  "(metric_call \<Rightarrow> 'r \<Rightarrow> 'r) \<Rightarrow> string \<Rightarrow> string \<Rightarrow> u64 \<Rightarrow> 'r \<Rightarrow> 'r" where
  "receive_bytes_count lib upstream sample bytes_size =
     lib (Inc_By RECEIVE_BYTES_COUNTER
       (Stream_Label \<lparr>sl_upstream = upstream, sl_sample = sample\<rparr>) bytes_size)"

definition receive_status_count ::
  "(metric_call \<Rightarrow> 'r \<Rightarrow> 'r) \<Rightarrow> string \<Rightarrow> string \<Rightarrow> 'r \<Rightarrow> 'r" where
  "receive_status_count lib upstream sample =
     lib (Inc RECEIVE_STATUS_COUNTER (Stream_Label \<lparr>sl_upstream = upstream, sl_sample = sample\<rparr>))"

definition receive_at_latency ::
  "(metric_call \<Rightarrow> 'r \<Rightarrow> 'r) \<Rightarrow> string \<Rightarrow> string \<Rightarrow> duration \<Rightarrow> 'r \<Rightarrow> 'r" where
  "receive_at_latency lib upstream sample cost =
     lib (Observe RECEIVE_LATENCY_HISTOGRAM
       (Stream_Label \<lparr>sl_upstream = upstream, sl_sample = sample\<rparr>) (as_millis cost))"

section \<open>process.rs\<close>

definition operation_count :: "(metric_call \<Rightarrow> 'r \<Rightarrow> 'r) \<Rightarrow> string \<Rightarrow> string \<Rightarrow> 'r \<Rightarrow> 'r" where
  "operation_count lib upstream sample =
     lib (Inc OPERATION_COUNTER (Stream_Label \<lparr>sl_upstream = upstream, sl_sample = sample\<rparr>))"

definition exception_count ::
  "(metric_call \<Rightarrow> 'r \<Rightarrow> 'r) \<Rightarrow> string \<Rightarrow> string \<Rightarrow> string \<Rightarrow> 'r \<Rightarrow> 'r" where
  "exception_count lib upstream sample msg =
     lib (Inc EXCEPTION_COUNTER
       (Stream_With_Msg_Label \<lparr>ml_upstream = upstream, ml_sample = sample, ml_msg = msg\<rparr>))"

definition cost_micro_sec ::
  "(metric_call \<Rightarrow> 'r \<Rightarrow> 'r) \<Rightarrow> string \<Rightarrow> string \<Rightarrow> duration \<Rightarrow> 'r \<Rightarrow> 'r" where
  "cost_micro_sec lib upstream sample cost =
     lib (Observe COST_MICRO_SEC_HISTOGRAM
       (Stream_Label \<lparr>sl_upstream = upstream, sl_sample = sample\<rparr>) (as_micros cost))"

definition cost_milli_sec ::
  "(metric_call \<Rightarrow> 'r \<Rightarrow> 'r) \<Rightarrow> string \<Rightarrow> string \<Rightarrow> duration \<Rightarrow> 'r \<Rightarrow> 'r" where
  "cost_milli_sec lib upstream sample cost =
     lib (Observe COST_MILLI_SEC_HISTOGRAM
       (Stream_Label \<lparr>sl_upstream = upstream, sl_sample = sample\<rparr>) (as_millis cost))"

section \<open>send.rs\<close>

definition send_count :: "(metric_call \<Rightarrow> 'r \<Rightarrow> 'r) \<Rightarrow> string \<Rightarrow> string \<Rightarrow> 'r \<Rightarrow> 'r" where
  "send_count lib downstream sample =
     lib (Inc SEND_COUNTER
       (Downstream_Label \<lparr>dl_downstream = downstream, dl_sample = sample\<rparr>))"

definition send_bytes_count ::
  "(metric_call \<Rightarrow> 'r \<Rightarrow> 'r) \<Rightarrow> string \<Rightarrow> string \<Rightarrow> u64 \<Rightarrow> 'r \<Rightarrow> 'r" where
  "send_bytes_count lib downstream sample bytes_size =
     lib (Inc_By SEND_BYTES_COUNTER
       (Downstream_Label \<lparr>dl_downstream = downstream, dl_sample = sample\<rparr>) bytes_size)"

definition send_status_count :: "(metric_call \<Rightarrow> 'r \<Rightarrow> 'r) \<Rightarrow> string \<Rightarrow> string \<Rightarrow> 'r \<Rightarrow> 'r" where
  "send_status_count lib downstream sample =
     lib (Inc SEND_STATUS_COUNTER
       (Downstream_Label \<lparr>dl_downstream = downstream, dl_sample = sample\<rparr>))"

definition send_at_latency ::
  "(metric_call \<Rightarrow> 'r \<Rightarrow> 'r) \<Rightarrow> string \<Rightarrow> string \<Rightarrow> duration \<Rightarrow> 'r \<Rightarrow> 'r" where
  "send_at_latency lib downstream sample cost =
     lib (Observe SEND_LATENCY_HISTOGRAM
       (Downstream_Label \<lparr>dl_downstream = downstream, dl_sample = sample\<rparr>) (as_millis cost))"

section \<open>dconf.rs\<close>

definition dconf_client_config_count ::
  "(metric_call \<Rightarrow> 'r \<Rightarrow> 'r) \<Rightarrow> string \<Rightarrow> string \<Rightarrow> string \<Rightarrow> string \<Rightarrow> string \<Rightarrow> 'r \<Rightarrow> 'r" where
  "dconf_client_config_count lib app_name ns env version ident =
     lib (Inc DCONF_CLIENT_CONFIG_COUNTER
       (Dconf_Label \<lparr>dc_app_name = app_name, dc_namespace = ns, dc_env = env,
          dc_version = version, dc_id = ident, dc_msg = ''''\<rparr>))"

definition dconf_client_reconnect_conut ::
  "(metric_call \<Rightarrow> 'r \<Rightarrow> 'r) \<Rightarrow> string \<Rightarrow> string \<Rightarrow> string \<Rightarrow> string \<Rightarrow> string \<Rightarrow> string \<Rightarrow> 'r \<Rightarrow> 'r" where
  "dconf_client_reconnect_conut lib app_name ns env version ident msg =
     lib (Inc DCONF_CLIENT_RECONNECT_COUNTER
       (Dconf_Label \<lparr>dc_app_name = app_name, dc_namespace = ns, dc_env = env,
          dc_version = version, dc_id = ident, dc_msg = msg\<rparr>))"

lemmas recording_defs = info_msg_count_def warning_msg_count_def fatal_msg_count_def msg_gauge_def
  receive_count_def receive_bytes_count_def receive_status_count_def receive_at_latency_def
  operation_count_def exception_count_def cost_micro_sec_def cost_milli_sec_def
  send_count_def send_bytes_count_def send_status_count_def send_at_latency_def
  dconf_client_config_count_def dconf_client_reconnect_conut_def

section \<open>The state clock\<close>

text \<open>\<open>StateMetric\<close>.  Every reading of the monotone clock is an argument, since the code reads
  it twice in one call.\<close>

record state_metric =
  sm_name :: string
  last_state :: string
  last_at :: nat
  init_state :: string
  refresh_at :: nat

definition state_metric_new :: "nat \<Rightarrow> string \<Rightarrow> string \<Rightarrow> state_metric" where
  "state_metric_new now name init =
     \<lparr>sm_name = name, last_state = init, last_at = now, init_state = init, refresh_at = now\<rparr>"

definition state_to :: "nat \<Rightarrow> string \<Rightarrow> state_metric \<Rightarrow> state_metric" where
  "state_to now curr_state m = m\<lparr>last_state := curr_state, last_at := now\<rparr>"

definition transition :: "string \<Rightarrow> string \<Rightarrow> string" where
  "transition a b = a @ ''_2_'' @ b"

definition metric_to ::
  "(metric_call \<Rightarrow> 'r \<Rightarrow> 'r) \<Rightarrow> nat \<Rightarrow> nat \<Rightarrow> string \<Rightarrow> state_metric \<times> 'r \<Rightarrow> state_metric \<times> 'r" where
  "metric_to lib now1 now2 curr_state = (\<lambda>(m, r).
     (m\<lparr>last_state := curr_state, last_at := now2\<rparr>,
      cost_milli_sec lib (sm_name m) (transition (last_state m) curr_state) (now1 - last_at m) r))"

definition state_reset ::
  "(metric_call \<Rightarrow> 'r \<Rightarrow> 'r) \<Rightarrow> nat \<Rightarrow> nat \<Rightarrow> state_metric \<times> 'r \<Rightarrow> state_metric \<times> 'r" where
  "state_reset lib now1 now2 = (\<lambda>(m, r).
     (m\<lparr>last_state := init_state m, refresh_at := now2\<rparr>,
      cost_milli_sec lib (sm_name m) (transition (init_state m) (init_state m))
        (now1 - refresh_at m) r))"

section \<open>What is exported\<close>

definition register_general :: "(string \<times> string \<times> family) list" where
  "register_general =
     [(''info_msg_count'', ''How many info msg'', INFO_MSG_COUNTER),
      (''warning_msg_count'', ''How many warning msg'', WARNING_MSG_COUNTER),
      (''fatal_msg_count'', ''How many fatal msg'', FATAL_MSG_COUNTER),
      (''gauge_msg_count'', ''How many gauge msg'', MSG_GAUGE)]"

definition register_receive :: "(string \<times> string \<times> family) list" where
  "register_receive =
     [(''upstream_data_receive'', ''How many data received from upstream'', RECEIVE_COUNTER),
      (''upstream_data_receive_bytes'', ''How many data received from upstream'',
       RECEIVE_BYTES_COUNTER),
      (''upstream_data_receive_status'', ''Status of upstream receive process'',
       RECEIVE_STATUS_COUNTER),
      (''upstream_data_receive_latency_millisecond'',
       ''When handle data finish, record time.Now - time.Begin'', RECEIVE_LATENCY_HISTOGRAM)]"

definition register_process :: "(string \<times> string \<times> family) list" where
  "register_process =
     [(''data_handle_operation'', ''Operation in data handle process'', OPERATION_COUNTER),
      (''data_handle_exception'', ''How many exception case during handle data'',
       EXCEPTION_COUNTER),
      (''data_handle_cost_microsecond'',
       ''When handle data finish, record time.Now - time.Begin'', COST_MICRO_SEC_HISTOGRAM),
      (''data_handle_cost_millisecond'',
       ''When handle data finish, record time.Now - time.Begin'', COST_MILLI_SEC_HISTOGRAM)]"

definition register_send :: "(string \<times> string \<times> family) list" where
  "register_send =
     [(''downstream_data_send'', ''How many data send to downstream'', SEND_COUNTER),
      (''downstream_data_send_status'', ''Status of downstream send data process'',
       SEND_STATUS_COUNTER),
      (''downstream_data_send_bytes'', ''How many data send to upstream'', SEND_BYTES_COUNTER),
      (''downstream_data_send_latency_millisecond'',
       ''When send quote data to downstream, record time.Now - data.TimeSequence'',
       SEND_LATENCY_HISTOGRAM)]"

definition register_dconf :: "(string \<times> string \<times> family) list" where
  "register_dconf =
     [(''dconf_client_rs_config_count'', ''information about client current configuration'',
       DCONF_CLIENT_CONFIG_COUNTER),
      (''dconf_client_rs_reconnect'', ''how many times dconf client reconnect occur'',
       DCONF_CLIENT_RECONNECT_COUNTER)]"

definition NAMESPACE_QUOTE_MONITOR :: string where
  "NAMESPACE_QUOTE_MONITOR = ''quote_monitor''"

definition DEFAULT_METRIC_SERVER_AT :: string where
  "DEFAULT_METRIC_SERVER_AT = ''0.0.0.0:9102''"

definition DEFAULT_METRIC_ROUTE_PATH :: string where
  "DEFAULT_METRIC_ROUTE_PATH = ''/metrics''"

text \<open>The part of \<open>register_and_server_at\<close> before the listener is bound: the registry, built
  by \<open>reg name help family\<close> from the empty registry with the prefix and handed to the
  caller's functions, the address and the route.\<close>

definition register_all :: "(string \<Rightarrow> string \<Rightarrow> family \<Rightarrow> 'g \<Rightarrow> 'g) \<Rightarrow> ('g \<Rightarrow> 'g) list \<Rightarrow> 'g \<Rightarrow> 'g" where
  "register_all reg reg_fns g =
     fold (\<lambda>f g. f g) reg_fns
       (fold (\<lambda>(name, help, fam). reg name help fam)
         (register_general @ register_receive @ register_process @ register_send @ register_dconf)
         g)"

definition register_and_server_at ::
  "(string \<Rightarrow> 'g) \<Rightarrow> (string \<Rightarrow> string \<Rightarrow> family \<Rightarrow> 'g \<Rightarrow> 'g) \<Rightarrow> string \<Rightarrow> string \<Rightarrow> ('g \<Rightarrow> 'g) list
     \<Rightarrow> string \<times> string \<times> 'g" where
  "register_and_server_at with_prefix reg addr path reg_fns =
     (if addr = [] then DEFAULT_METRIC_SERVER_AT else addr,
      if path = [] then DEFAULT_METRIC_ROUTE_PATH else path,
      register_all reg reg_fns (with_prefix NAMESPACE_QUOTE_MONITOR))"

definition healthy_check :: "nat \<times> string" where
  "healthy_check = (200, ''Hello I'' @ [CHR 0x27] @ ''m fine!'')"

end
