(* ===== verification/Metrics_Theorems.thy ===== *)
theory Metrics_Theorems
  imports Metrics "HOL-Library.Multiset"
begin

text \<open>
  What the metrics show: the locale \<open>counter_store\<close> is what the recording functions rely on in
  the counters of the library, its interpretation is a store of wrapping counters, and the
  properties say that every series counts exactly the calls meant for it, that every family is
  exported once, and what the state clock measures.
\<close>

section \<open>The contract of the library's counters\<close>

fun adds :: "metric_call \<Rightarrow> family \<Rightarrow> label \<Rightarrow> u64" where
  "adds (Inc f l) f' l' = (if f' = f \<and> l' = l then 1 else 0)"
| "adds (Inc_By f l n) f' l' = (if f' = f \<and> l' = l then n else 0)"
| "adds (Gauge_Set f l n) f' l' = 0"
| "adds (Observe f l n) f' l' = 0"

locale counter_store =
  fixes lib :: "metric_call \<Rightarrow> 'r \<Rightarrow> 'r"
    and counter :: "'r \<Rightarrow> family \<Rightarrow> label \<Rightarrow> u64"
  assumes counter_call: "counter (lib c r) f l = counter r f l + adds c f l"
begin

lemma counter_calls:
  "counter (fold lib cs r) f l = counter r f l + (\<Sum>c\<leftarrow>cs. adds c f l)"
  by (induction cs arbitrary: r) (simp_all add: counter_call add.assoc)

end

definition count_call :: "metric_call \<Rightarrow> (family \<Rightarrow> label \<Rightarrow> u64) \<Rightarrow> family \<Rightarrow> label \<Rightarrow> u64" where
  "count_call c r = (\<lambda>f l. r f l + adds c f l)"

interpretation word_counters: counter_store count_call "\<lambda>r. r"
  by unfold_locales (simp add: count_call_def)

section \<open>Runs of recording functions\<close>

datatype recording =
    R_Info string | R_Warning string | R_Fatal string | R_Gauge string i64
  | R_Receive string string | R_Receive_Bytes string string u64 | R_Receive_Status string string
  | R_Receive_Latency string string duration
  | R_Operation string string | R_Exception string string string
  | R_Cost_Micro string string duration | R_Cost_Milli string string duration
  | R_Send string string | R_Send_Bytes string string u64 | R_Send_Status string string
  | R_Send_Latency string string duration
  | R_Config string string string string string
  | R_Reconnect string string string string string string

fun recorded :: "(metric_call \<Rightarrow> 'r \<Rightarrow> 'r) \<Rightarrow> recording \<Rightarrow> 'r \<Rightarrow> 'r" where
  "recorded lib (R_Info m) = info_msg_count lib m"
| "recorded lib (R_Warning m) = warning_msg_count lib m"
| "recorded lib (R_Fatal m) = fatal_msg_count lib m"
| "recorded lib (R_Gauge m v) = msg_gauge lib m v"
| "recorded lib (R_Receive u s) = receive_count lib u s"
| "recorded lib (R_Receive_Bytes u s n) = receive_bytes_count lib u s n"
| "recorded lib (R_Receive_Status u s) = receive_status_count lib u s"
| "recorded lib (R_Receive_Latency u s d) = receive_at_latency lib u s d"
| "recorded lib (R_Operation u s) = operation_count lib u s"
| "recorded lib (R_Exception u s m) = exception_count lib u s m"
| "recorded lib (R_Cost_Micro u s d) = cost_micro_sec lib u s d"
| "recorded lib (R_Cost_Milli u s d) = cost_milli_sec lib u s d"
| "recorded lib (R_Send u s) = send_count lib u s"
| "recorded lib (R_Send_Bytes u s n) = send_bytes_count lib u s n"
| "recorded lib (R_Send_Status u s) = send_status_count lib u s"
| "recorded lib (R_Send_Latency u s d) = send_at_latency lib u s d"
| "recorded lib (R_Config a n e v i) = dconf_client_config_count lib a n e v i"
| "recorded lib (R_Reconnect a n e v i m) = dconf_client_reconnect_conut lib a n e v i m"

text \<open>The one call of the library that a recording function makes.\<close>

definition the_call :: "recording \<Rightarrow> metric_call" where
  "the_call op = hd (recorded (\<lambda>c cs. c # cs) op [])"

lemma recorded_the_call: "recorded lib op = lib (the_call op)"
  by (cases op) (simp_all add: the_call_def recording_defs)

lemma recorded_fold: "fold (recorded lib) ops r = fold lib (map the_call ops) r"
  by (induction ops arbitrary: r) (simp_all add: recorded_the_call)

text \<open>The functions that count by one: all but the gauge, the byte counts and the durations.\<close>

fun counts_one :: "recording \<Rightarrow> bool" where
  "counts_one (R_Gauge m v) = False"
| "counts_one (R_Receive_Bytes u s n) = False"
| "counts_one (R_Send_Bytes u s n) = False"
| "counts_one (R_Receive_Latency u s d) = False"
| "counts_one (R_Cost_Micro u s d) = False"
| "counts_one (R_Cost_Milli u s d) = False"
| "counts_one (R_Send_Latency u s d) = False"
| "counts_one op = True"

fun family_of :: "metric_call \<Rightarrow> family" where
  "family_of (Inc f l) = f"
| "family_of (Inc_By f l n) = f"
| "family_of (Gauge_Set f l n) = f"
| "family_of (Observe f l n) = f"

fun label_of :: "metric_call \<Rightarrow> label" where
  "label_of (Inc f l) = l"
| "label_of (Inc_By f l n) = l"
| "label_of (Gauge_Set f l n) = l"
| "label_of (Observe f l n) = l"

fun received_bytes :: "string \<Rightarrow> string \<Rightarrow> recording \<Rightarrow> u64" where
  "received_bytes u s (R_Receive_Bytes u' s' n) = (if u' = u \<and> s' = s then n else 0)"
| "received_bytes u s _ = 0"

fun sent_bytes :: "string \<Rightarrow> string \<Rightarrow> recording \<Rightarrow> u64" where
  "sent_bytes u s (R_Send_Bytes u' s' n) = (if u' = u \<and> s' = s then n else 0)"
| "sent_bytes u s _ = 0"

lemma adds_the_call:
  assumes "counts_one op"
  shows "adds (the_call op') (family_of (the_call op)) (label_of (the_call op))
           = (if op' = op then 1 else 0)"
  using assms by (cases op; cases op') (auto simp: the_call_def recording_defs)

lemma adds_received_bytes:
  "adds (the_call op) RECEIVE_BYTES_COUNTER (Stream_Label \<lparr>sl_upstream = u, sl_sample = s\<rparr>)
     = received_bytes u s op"
  by (cases op) (auto simp: the_call_def recording_defs)

lemma adds_sent_bytes:
  "adds (the_call op) SEND_BYTES_COUNTER (Downstream_Label \<lparr>dl_downstream = u, dl_sample = s\<rparr>)
     = sent_bytes u s op"
  by (cases op) (auto simp: the_call_def recording_defs)

lemma sum_indicator: "(\<Sum>x\<leftarrow>xs. if x = y then 1 else 0) = (of_nat (count_list xs y) :: 'a::len word)"
  by (induction xs) simp_all

section \<open>The state clock\<close>

abbreviation logged :: "metric_call \<Rightarrow> metric_call list \<Rightarrow> metric_call list" where
  "logged c cs \<equiv> cs @ [c]"

text \<open>A run of \<open>metric_to\<close>: the two readings of the clock and the new state of each call.\<close>

fun clock_run :: "(nat \<times> nat \<times> string) list \<Rightarrow> state_metric \<times> metric_call list
    \<Rightarrow> state_metric \<times> metric_call list" where
  "clock_run [] x = x"
| "clock_run ((now1, now2, s) # steps) x = clock_run steps (metric_to logged now1 now2 s x)"

fun in_order :: "nat \<Rightarrow> (nat \<times> nat \<times> string) list \<Rightarrow> bool" where
  "in_order t [] = True"
| "in_order t ((now1, now2, s) # steps) \<longleftrightarrow> t \<le> now1 \<and> now1 \<le> now2 \<and> in_order now2 steps"

fun chain :: "string \<Rightarrow> string list \<Rightarrow> string list" where
  "chain a [] = []"
| "chain a (b # bs) = transition a b # chain b bs"

fun cost_of :: "metric_call \<Rightarrow> nat" where
  "cost_of (Observe f l n) = n"
| "cost_of _ = 0"

definition milli_series :: "string \<Rightarrow> string \<Rightarrow> family \<times> label" where
  "milli_series name sample =
     (COST_MILLI_SEC_HISTOGRAM, Stream_Label \<lparr>sl_upstream = name, sl_sample = sample\<rparr>)"

abbreviation states :: "(nat \<times> nat \<times> string) list \<Rightarrow> string list" where
  "states steps \<equiv> map (\<lambda>(_, _, s). s) steps"

lemma clock_run_log:
  "in_order (last_at m) steps \<Longrightarrow> \<exists>cs m'. clock_run steps (m, log) = (m', log @ cs)
     \<and> map (\<lambda>c. (family_of c, label_of c)) cs
         = map (milli_series (sm_name m)) (chain (last_state m) (states steps))
     \<and> last_at m \<le> last_at m' \<and> 1000000 * (\<Sum>c\<leftarrow>cs. cost_of c) \<le> last_at m' - last_at m
     \<and> last_state m' = last (last_state m # states steps)"
proof (induction steps arbitrary: m log)
  case (Cons step steps)
  obtain now1 now2 s where step: "step = (now1, now2, s)" by (cases step)
  let ?m = "m\<lparr>last_state := s, last_at := now2\<rparr>"
  let ?c = "Observe COST_MILLI_SEC_HISTOGRAM (Stream_Label \<lparr>sl_upstream = sm_name m,
      sl_sample = transition (last_state m) s\<rparr>) (as_millis (now1 - last_at m))"
  have le: "last_at m \<le> now1" "now1 \<le> now2" "in_order (last_at ?m) steps"
    using Cons.prems by (simp_all add: step)
  have fields: "sm_name ?m = sm_name m" "last_state ?m = s" "last_at ?m = now2" by simp_all
  have one: "clock_run (step # steps) (m, log) = clock_run steps (?m, log @ [?c])"
    by (simp add: step metric_to_def cost_milli_sec_def)
  obtain cs m' where rest: "clock_run steps (?m, log @ [?c]) = (m', (log @ [?c]) @ cs)"
    "map (\<lambda>c. (family_of c, label_of c)) cs = map (milli_series (sm_name m)) (chain s (states steps))"
    "now2 \<le> last_at m'" "1000000 * (\<Sum>c\<leftarrow>cs. cost_of c) \<le> last_at m' - now2"
    "last_state m' = last (s # states steps)"
    using Cons.IH[OF le(3), of "log @ [?c]"] unfolding fields by blast
  have "1000000 * as_millis (now1 - last_at m) \<le> now1 - last_at m"
    by (simp add: as_millis_def)
  then have "1000000 * (\<Sum>c\<leftarrow>?c # cs. cost_of c) \<le> last_at m' - last_at m"
    using rest(3,4) le(1,2) by simp
  moreover have "clock_run (step # steps) (m, log) = (m', log @ (?c # cs))"
    using one rest(1) by simp
  moreover have "map (\<lambda>c. (family_of c, label_of c)) (?c # cs)
      = map (milli_series (sm_name m)) (chain (last_state m) (states (step # steps)))"
    using rest(2) by (simp add: step milli_series_def)
  moreover have "last_at m \<le> last_at m'" using rest(3) le by linarith
  moreover have "last_state m' = last (last_state m # states (step # steps))"
    using rest(5) by (simp add: step)
  ultimately show ?case by blast
qed simp

text \<open>\<open>state_reset\<close> puts the state back but not the clock of the transitions: the first
  transition after it is charged with all the time since the last one before it.\<close>

lemma state_reset_keeps_clock:
  assumes "last_at m \<le> now1" and "now1 \<le> now2" and "now2 \<le> now3" and "now3 \<le> now4"
  shows "\<exists>c c'. snd (metric_to logged now3 now4 s (state_reset logged now1 now2 (m, log)))
      = log @ [c, c']
    \<and> (family_of c', label_of c') = milli_series (sm_name m) (transition (init_state m) s)
    \<and> as_millis (now1 - last_at m) \<le> cost_of c'"
  using assms
  by (simp add: metric_to_def state_reset_def cost_milli_sec_def milli_series_def as_millis_def
      div_le_mono)

section \<open>Properties\<close>


definition some_records :: "recording list" where
  "some_records = [R_Receive ''u'' ''s'', R_Receive_Bytes ''u'' ''s'' 7, R_Receive_Status ''u'' ''s'',
     R_Receive ''u'' ''s'', R_Receive ''u'' ''t'', R_Receive_Bytes ''u'' ''s'' 5]"


text \<open>Every metric family is exported exactly once, each under a name of its own, before
  the functions of the caller extend the registry.\<close>

lemma metrics_exported_once:
  "\<exists>rs. (\<forall>reg fns g. register_all reg fns g
        = fold (\<lambda>f g. f g) fns (fold (\<lambda>(name, help, fam). reg name help fam) rs g))
     \<and> distinct (map fst rs) \<and> (\<forall>fam. count_list (map (snd \<circ> snd) rs) fam = 1)"
proof (intro exI conjI allI)
  let ?rs = "register_general @ register_receive @ register_process @ register_send @ register_dconf"
  show "register_all reg fns g
      = fold (\<lambda>f g. f g) fns (fold (\<lambda>(name, help, fam). reg name help fam) ?rs g)" for reg fns g
    by (simp add: register_all_def)
  show "distinct (map fst ?rs)"
    by (simp add: register_general_def register_receive_def register_process_def
        register_send_def register_dconf_def)
  show "count_list (map (snd \<circ> snd) ?rs) fam = 1" for fam
    by (cases fam) (simp_all add: register_general_def register_receive_def register_process_def
        register_send_def register_dconf_def)
qed

text \<open>C39: What the state clock measures.  A run of \<open>metric_to\<close> from a new clock records the
  transitions of the states in order, from the initial state on, each under the clock's name,
  and the milliseconds it charges never add up to more than the time from the clock's creation
  to its last reading.\<close>

theorem state_clock_transitions:
  assumes "in_order start steps"
  shows "\<exists>m cs. clock_run steps (state_metric_new start name init, []) = (m, cs)
     \<and> map (\<lambda>c. (family_of c, label_of c)) cs
         = map (milli_series name) (chain init (states steps))
     \<and> start \<le> last_at m \<and> 1000000 * (\<Sum>c\<leftarrow>cs. cost_of c) \<le> last_at m - start
     \<and> last_state m = last (init # states steps)"
proof -
  let ?m = "state_metric_new start name init"
  have "sm_name ?m = name" "last_state ?m = init" "last_at ?m = start"
    by (simp_all add: state_metric_new_def)
  then show ?thesis using clock_run_log[of ?m steps "[]"] assms by auto
qed

definition two_transitions :: "(nat \<times> nat \<times> string) list" where
  "two_transitions = [(2500000, 2500000, ''busy''), (5000000, 6000000, ''idle'')]"

theorem state_clock_transitions_witness:
  "\<exists>m cs. clock_run two_transitions (state_metric_new 0 ''clock'' ''idle'', []) = (m, cs)
     \<and> map (\<lambda>c. (family_of c, label_of c)) cs
         = [milli_series ''clock'' ''idle_2_busy'', milli_series ''clock'' ''busy_2_idle'']
     \<and> 1000000 * (\<Sum>c\<leftarrow>cs. cost_of c) \<le> last_at m"
proof -
  have "in_order 0 two_transitions" by (simp add: two_transitions_def)
  from state_clock_transitions[OF this, of "''clock''" "''idle''"]
  show ?thesis by (auto simp: two_transitions_def transition_def)
qed

end
