(* ===== verification/Metrics_Server.thy ===== *)
theory Metrics_Server
  imports Metrics
begin

text \<open>
  The HTTP side of \<open>metrics/src/lib.rs\<close>: the router that \<open>register_and_server_at\<close> builds, the
  outcomes of starting the server, and how it ends.  The router, the socket and the text encoding
  of the registry are parameters; the locale \<open>http_router\<close> states what is documented of routes
  without parameters.
\<close>

section \<open>The router\<close>

datatype 'g http_handler = Metric_Handler 'g | Healthy_Check

record ('r, 'g) http_lib =
  router_new :: 'r
  router_route :: "string \<Rightarrow> 'g http_handler \<Rightarrow> 'r \<Rightarrow> (unit, 'r) res"
  router_get :: "'r \<Rightarrow> string \<Rightarrow> 'g http_handler option"

definition metric_router :: "('r, 'g) http_lib \<Rightarrow> string \<Rightarrow> 'g \<Rightarrow> (unit, 'r) res" where
  "metric_router lib path reg =
     and_then (router_route lib path (Metric_Handler reg) (router_new lib))
       (router_route lib ''/healthz'' Healthy_Check)"

text \<open>
  \<open>register_and_server_at\<close> up to serving: a route the router refuses and an address that cannot
  be bound are panics; otherwise the router serves at the address.
\<close>

definition metric_server ::
  "('r, 'g) http_lib \<Rightarrow> (string \<Rightarrow> bool) \<Rightarrow> (string \<Rightarrow> 'g) \<Rightarrow> (string \<Rightarrow> string \<Rightarrow> family \<Rightarrow> 'g \<Rightarrow> 'g)
     \<Rightarrow> string \<Rightarrow> string \<Rightarrow> ('g \<Rightarrow> 'g) list \<Rightarrow> (unit, string \<times> 'r) res" where
  "metric_server lib can_bind with_prefix reg addr path reg_fns =
     (let (addr, path, registry) = register_and_server_at with_prefix reg addr path reg_fns in
      and_then (metric_router lib path registry) (\<lambda>router.
        if can_bind addr then Inr (addr, router) else Inl Panic))"

text \<open>One request to the server: status and body.  \<open>encode\<close> writes the registry as text.\<close>

definition answer_request :: "('r, 'g) http_lib \<Rightarrow> ('g \<Rightarrow> string) \<Rightarrow> 'r \<Rightarrow> string \<Rightarrow> (nat \<times> string) option" where
  "answer_request lib encode router path =
     map_option (\<lambda>h. case h of Metric_Handler reg \<Rightarrow> (200, encode reg) | Healthy_Check \<Rightarrow> healthy_check)
       (router_get lib router path)"

text \<open>The server ends on the first of the two signals; everything before is served.\<close>

datatype server_input = Http_Get string | Interrupt | Terminate

fun serve_until ::
    "('r, 'g) http_lib \<Rightarrow> ('g \<Rightarrow> string) \<Rightarrow> 'r \<Rightarrow> server_input list \<Rightarrow> (nat \<times> string) option list \<times> bool" where
  "serve_until lib encode router [] = ([], False)"
| "serve_until lib encode router (Http_Get path # inputs) =
     (let (answers, ended) = serve_until lib encode router inputs in
      (answer_request lib encode router path # answers, ended))"
| "serve_until lib encode router (Interrupt # inputs) = ([], True)"
| "serve_until lib encode router (Terminate # inputs) = ([], True)"

section \<open>The contract of the router\<close>

definition static_path :: "string \<Rightarrow> bool" where
  "static_path path \<longleftrightarrow> set path \<inter> set ''{}:*'' = {}"

locale http_router =
  fixes lib :: "('r, 'g) http_lib"
  assumes empty: "router_get lib (router_new lib) path = None"
    and route: "static_path path \<Longrightarrow> take 1 path = ''/'' \<Longrightarrow> router_get lib r path = None \<Longrightarrow>
      \<exists>r'. router_route lib path h r = Inr r'
        \<and> (\<forall>q. router_get lib r' q = (if q = path then Some h else router_get lib r q))"
    and refused: "static_path path \<Longrightarrow> take 1 path \<noteq> ''/'' \<or> router_get lib r path \<noteq> None \<Longrightarrow>
      router_route lib path h r = Inl Panic"
begin

lemma metric_router_built:
  assumes "static_path path" and "take 1 path = ''/''" and "path \<noteq> ''/healthz''"
  shows "\<exists>r. metric_router lib path reg = Inr r
    \<and> (\<forall>q. router_get lib r q = (if q = path then Some (Metric_Handler reg)
         else if q = ''/healthz'' then Some Healthy_Check else None))"
proof -
  obtain r where r: "router_route lib path (Metric_Handler reg) (router_new lib) = Inr r"
    "\<forall>q. router_get lib r q = (if q = path then Some (Metric_Handler reg) else None)"
    using route[OF assms(1,2) empty, of "Metric_Handler reg"] by (auto simp: empty)
  have "static_path ''/healthz''" "router_get lib r ''/healthz'' = None"
    using r(2) assms(3) by (simp_all add: static_path_def)
  from route[OF this(1) _ this(2), of Healthy_Check] r assms(3) show ?thesis
    by (auto simp: metric_router_def)
qed

lemma metric_router_refused:
  assumes "static_path path" and "take 1 path \<noteq> ''/'' \<or> path = ''/healthz''"
  shows "metric_router lib path reg = Inl Panic"
proof (cases "take 1 path = ''/''")
  case True
  then have healthz: "path = ''/healthz''" using assms(2) by simp
  obtain r where r: "router_route lib path (Metric_Handler reg) (router_new lib) = Inr r"
    "router_get lib r path = Some (Metric_Handler reg)"
    using route[OF assms(1) True empty, of "Metric_Handler reg"] by auto
  then show ?thesis using refused[OF assms(1), of r Healthy_Check] by (simp add: metric_router_def healthz)
next
  case False
  then show ?thesis using refused[OF assms(1)] by (simp add: metric_router_def)
qed

end

text \<open>A router that keeps its routes in a map.\<close>

definition map_router :: "(string \<rightharpoonup> 'g http_handler, 'g) http_lib" where
  "map_router = \<lparr>router_new = Map.empty,
     router_route = \<lambda>path h r. if take 1 path = ''/'' \<and> r path = None then Inr (r(path \<mapsto> h)) else Inl Panic,
     router_get = \<lambda>r. r\<rparr>"

interpretation map_router: http_router map_router
  by unfold_locales (auto simp: map_router_def)

section \<open>Properties\<close>

text \<open>C38: Starting and asking the metrics server.  With an empty address or path it falls back to its
  defaults.  It panics exactly if the path does not begin with a slash, is the path of the
  health check, or the address cannot be bound; otherwise it serves the registry, with all the
  metrics of the crate and of the caller, at its path, the health check at its own, and nothing
  else.\<close>

theorem metric_server_outcomes:
  assumes "http_router lib" and "static_path path"
    and "address = (if addr = [] then ''0.0.0.0:9102'' else addr)"
    and "route = (if path = [] then ''/metrics'' else path)"
    and "registry = register_all reg reg_fns (with_prefix ''quote_monitor'')"
  shows "(metric_server lib can_bind with_prefix reg addr path reg_fns = Inl Panic \<longleftrightarrow>
        take 1 route \<noteq> ''/'' \<or> route = ''/healthz'' \<or> \<not> can_bind address)
    \<and> (\<forall>at router. metric_server lib can_bind with_prefix reg addr path reg_fns = Inr (at, router) \<longrightarrow>
        at = address \<and> (\<forall>q. answer_request lib encode router q =
          (if q = route then Some (200, encode registry)
           else if q = ''/healthz'' then Some healthy_check else None)))"
proof -
  have static: "static_path route" using assms(2) by (simp add: assms(4) static_path_def)
  have start: "metric_server lib can_bind with_prefix reg addr path reg_fns =
      and_then (metric_router lib route registry) (\<lambda>router. if can_bind address then Inr (address, router) else Inl Panic)"
    by (simp add: metric_server_def register_and_server_at_def assms(3-5) DEFAULT_METRIC_SERVER_AT_def
        DEFAULT_METRIC_ROUTE_PATH_def NAMESPACE_QUOTE_MONITOR_def cong: if_cong)
  show ?thesis
  proof (cases "take 1 route \<noteq> ''/'' \<or> route = ''/healthz''")
    case True
    then show ?thesis using http_router.metric_router_refused[OF assms(1) static True] by (simp add: start)
  next
    case False
    then obtain r where "metric_router lib route registry = Inr r"
      "\<forall>q. router_get lib r q = (if q = route then Some (Metric_Handler registry)
         else if q = ''/healthz'' then Some Healthy_Check else None)"
      using http_router.metric_router_built[OF assms(1) static] by blast
    then show ?thesis using False by (auto simp: start answer_request_def)
  qed
qed

theorem metric_server_outcomes_witness:
  "metric_server map_router (\<lambda>_. True) (\<lambda>p. [p]) (\<lambda>n h f g. n # g) [] ''/healthz'' [] = Inl Panic
   \<and> metric_server map_router (\<lambda>_. True) (\<lambda>p. [p]) (\<lambda>n h f g. n # g) [] [] [] \<noteq> Inl Panic"
proof -
  have paths: "static_path ''/healthz''" "static_path []" by (simp_all add: static_path_def)
  show ?thesis
    using metric_server_outcomes[OF map_router.http_router_axioms paths(1) refl refl refl,
        of "\<lambda>_. True" "\<lambda>p. [p]" "\<lambda>n h f g. n # g" "[]" "[]" "\<lambda>_. []"]
      metric_server_outcomes[OF map_router.http_router_axioms paths(2) refl refl refl,
        of "\<lambda>_. True" "\<lambda>p. [p]" "\<lambda>n h f g. n # g" "[]" "[]" "\<lambda>_. []"]
    by simp
qed

end
