(* ===== verification/Tls_Utils.thy ===== *)
theory Tls_Utils
  imports Link_Config
begin

text \<open>
  \<open>link/src/tls_utils.rs\<close>: the self-signed certificate and the TLS context of an endpoint.  The
  calls into BoringSSL are a parameter; each may fail, and the first failure is returned.  The
  locale \<open>tls_library\<close> states what is documented of them: a builder keeps what was set, in order,
  and the check of the private key compares it with the certificate.
\<close>

section \<open>The library\<close>

datatype key_usage = Digital_Signature | Key_Encipherment

datatype x509_extension =
  Basic_Constraints bool bool | Key_Usage bool "key_usage list" | Server_Auth | Subject_Key_Id

text \<open>The arguments of \<open>Basic_Constraints\<close> are whether it is critical and whether it is a CA.\<close>

datatype 'k x509_field =
  Version nat | Serial_Number nat | Subject_Name "(string \<times> string) list"
| Issuer_Name "(string \<times> string) list" | Public_Key 'k | Not_Before nat | Not_After nat
| Extension x509_extension | Signature 'k

datatype tls_version = TLS1_2 | TLS1_3

datatype ('k, 'c) tls_option =
  Min_Proto tls_version | Max_Proto tls_version | Certificate 'c | Private_Key 'k | Verify_None
| Alpn_Protos bytes

text \<open>
  The operations: key generation, the random serial number, the names, the certificate builder
  with its setters and extensions, and the context builder.  Making a time or an extension is
  part of setting it, and fails with it.
\<close>

record ('k, 'x, 'c, 'b, 'e) tls_lib =
  rsa_generate :: "nat \<Rightarrow> 'e + 'k"
  rand_serial :: "nat \<Rightarrow> 'e + nat"
  name_build :: "(string \<times> string) list \<Rightarrow> 'e + (string \<times> string) list"
  x509_builder :: "'e + 'x"
  x509_set :: "'k x509_field \<Rightarrow> 'x \<Rightarrow> 'e + 'x"
  x509_sign :: "'k \<Rightarrow> 'x \<Rightarrow> 'e + 'x"
  x509_build :: "'x \<Rightarrow> 'c"
  ctx_new :: "'e + 'b"
  ctx_set :: "('k, 'c) tls_option \<Rightarrow> 'b \<Rightarrow> 'e + 'b"
  ctx_check_private_key :: "'b \<Rightarrow> 'e + unit"

fun set_all :: "('f \<Rightarrow> 'x \<Rightarrow> 'e + 'x) \<Rightarrow> 'f list \<Rightarrow> 'x \<Rightarrow> 'e + 'x" where
  "set_all setter [] x = Inr x"
| "set_all setter (f # fs) x = and_then (setter f x) (set_all setter fs)"

section \<open>The certificate and the context\<close>

definition ca_name :: "(string \<times> string) list" where
  "ca_name = [(''C'', ''CN''), (''ST'', ''TX''), (''O'', ''Longbridge organization''),
     (''CN'', ''quote-link-server.rs'')]"

definition mk_ca_cert :: "('k, 'x, 'c, 'b, 'e) tls_lib \<Rightarrow> 'e + 'c \<times> 'k" where
  "mk_ca_cert lib =
     and_then (rsa_generate lib 2048) (\<lambda>privkey.
     and_then (name_build lib ca_name) (\<lambda>x509_name.
     and_then (x509_builder lib) (\<lambda>cert_builder.
     and_then (x509_set lib (Version 2) cert_builder) (\<lambda>cert_builder.
     and_then (rand_serial lib 159) (\<lambda>serial_number.
     and_then (set_all (x509_set lib)
         [Serial_Number serial_number, Subject_Name x509_name, Issuer_Name x509_name,
          Public_Key privkey, Not_Before 0, Not_After 365,
          Extension (Basic_Constraints True False),
          Extension (Key_Usage True [Digital_Signature, Key_Encipherment]),
          Extension Server_Auth, Extension Subject_Key_Id] cert_builder) (\<lambda>cert_builder.
     and_then (x509_sign lib privkey cert_builder) (\<lambda>cert_builder.
       Inr (x509_build lib cert_builder, privkey))))))))"

definition alpn_of :: "string \<Rightarrow> bytes" where
  "alpn_of s = map of_char s"

definition new_tls_context_builder :: "('k, 'x, 'c, 'b, 'e) tls_lib \<Rightarrow> 'e + 'b" where
  "new_tls_context_builder lib =
     and_then (ctx_new lib) (\<lambda>ctx.
     and_then (set_all (ctx_set lib) [Min_Proto TLS1_3, Max_Proto TLS1_3] ctx) (\<lambda>ctx.
     and_then (mk_ca_cert lib) (\<lambda>(cert, key).
     and_then (set_all (ctx_set lib) [Certificate cert, Private_Key key] ctx) (\<lambda>ctx.
     and_then (ctx_check_private_key lib ctx) (\<lambda>_.
       set_all (ctx_set lib) [Verify_None, Alpn_Protos (0x11 # alpn_of ''quic-echo-example'')] ctx)))))"

section \<open>The contract of the library\<close>

locale tls_library =
  fixes lib :: "('k, 'x, 'c, 'b, 'e) tls_lib"
    and fields_of :: "'x \<Rightarrow> 'k x509_field list"
    and cert_fields :: "'c \<Rightarrow> 'k x509_field list"
    and options :: "'b \<Rightarrow> ('k, 'c) tls_option list"
  assumes built: "x509_builder lib = Inr x \<Longrightarrow> fields_of x = []"
    and field_set: "x509_set lib f x = Inr x' \<Longrightarrow> fields_of x' = fields_of x @ [f]"
    and signed: "x509_sign lib k x = Inr x' \<Longrightarrow> fields_of x' = fields_of x @ [Signature k]"
    and cert: "cert_fields (x509_build lib x) = fields_of x"
    and name: "name_build lib n = Inr n' \<Longrightarrow> n' = n"
    and fresh: "ctx_new lib = Inr b \<Longrightarrow> options b = []"
    and option_set: "ctx_set lib opt b = Inr b' \<Longrightarrow> options b' = options b @ [opt]"
    and key_checked: "{c. Certificate c \<in> set (options b)} = {c} \<Longrightarrow> {k. Private_Key k \<in> set (options b)} = {k}
      \<Longrightarrow> ctx_check_private_key lib b = Inr () \<longleftrightarrow> Public_Key k \<in> set (cert_fields c)"
begin

lemma set_all_fields: "set_all (x509_set lib) fs x = Inr x' \<Longrightarrow> fields_of x' = fields_of x @ fs"
proof (induction fs arbitrary: x)
  case (Cons f fs)
  then obtain y where "x509_set lib f x = Inr y" "set_all (x509_set lib) fs y = Inr x'"
    by (cases "x509_set lib f x") auto
  then show ?case using Cons.IH field_set by fastforce
qed simp

lemma set_all_options: "set_all (ctx_set lib) opts b = Inr b' \<Longrightarrow> options b' = options b @ opts"
proof (induction opts arbitrary: b)
  case (Cons f fs)
  then obtain y where "ctx_set lib f b = Inr y" "set_all (ctx_set lib) fs y = Inr b'"
    by (cases "ctx_set lib f b") auto
  then show ?case using Cons.IH option_set by fastforce
qed simp

lemma mk_ca_cert_fields:
  assumes "mk_ca_cert lib = Inr (c, k)"
  shows "\<exists>serial. cert_fields c = [Version 2, Serial_Number serial, Subject_Name ca_name,
    Issuer_Name ca_name, Public_Key k, Not_Before 0, Not_After 365,
    Extension (Basic_Constraints True False),
    Extension (Key_Usage True [Digital_Signature, Key_Encipherment]),
    Extension Server_Auth, Extension Subject_Key_Id, Signature k]"
proof -
  from assms obtain n x0 x1 serial x2 x3 where calls: "name_build lib ca_name = Inr n"
    "x509_builder lib = Inr x0" "x509_set lib (Version 2) x0 = Inr x1"
    "set_all (x509_set lib) [Serial_Number serial, Subject_Name n, Issuer_Name n, Public_Key k,
       Not_Before 0, Not_After 365, Extension (Basic_Constraints True False),
       Extension (Key_Usage True [Digital_Signature, Key_Encipherment]),
       Extension Server_Auth, Extension Subject_Key_Id] x1 = Inr x2"
    "x509_sign lib k x2 = Inr x3" "c = x509_build lib x3"
    unfolding mk_ca_cert_def and_then_Inr_iff by blast
  have "fields_of x1 = [Version 2]" using built[OF calls(2)] field_set[OF calls(3)] by simp
  then show ?thesis
    using set_all_fields[OF calls(4)] signed[OF calls(5)] name[OF calls(1)] calls(6) cert by simp
qed

end

section \<open>An instance\<close>

text \<open>Builders that are the lists of what was set, and one key.\<close>

fun first_certificate :: "('k, 'c) tls_option list \<Rightarrow> 'c option" where
  "first_certificate [] = None"
| "first_certificate (opt # opts) = (case opt of Certificate c \<Rightarrow> Some c | _ \<Rightarrow> first_certificate opts)"

fun first_key :: "('k, 'c) tls_option list \<Rightarrow> 'k option" where
  "first_key [] = None"
| "first_key (opt # opts) = (case opt of Private_Key k \<Rightarrow> Some k | _ \<Rightarrow> first_key opts)"

definition list_check :: "(nat, nat x509_field list) tls_option list \<Rightarrow> unit + unit" where
  "list_check b =
     (case (first_certificate b, first_key b) of
        (Some c, Some k) \<Rightarrow> if Public_Key k \<in> set c then Inr () else Inl ()
      | _ \<Rightarrow> Inl ())"

definition list_tls ::
    "(nat, nat x509_field list, nat x509_field list, (nat, nat x509_field list) tls_option list, unit) tls_lib" where
  "list_tls = \<lparr>rsa_generate = \<lambda>bits. Inr 7, rand_serial = \<lambda>bits. Inr 12, name_build = Inr,
     x509_builder = Inr [], x509_set = \<lambda>f x. Inr (x @ [f]), x509_sign = \<lambda>k x. Inr (x @ [Signature k]),
     x509_build = \<lambda>x. x, ctx_new = Inr [], ctx_set = \<lambda>opt b. Inr (b @ [opt]),
     ctx_check_private_key = list_check\<rparr>"

lemma list_tls_simps [simp]:
  "rsa_generate list_tls n = Inr 7" "rand_serial list_tls n = Inr 12" "name_build list_tls nm = Inr nm"
  "x509_builder list_tls = Inr []" "x509_set list_tls f x = Inr (x @ [f])"
  "x509_sign list_tls k x = Inr (x @ [Signature k])" "x509_build list_tls x = x"
  "ctx_new list_tls = Inr []" "ctx_set list_tls opt b = Inr (b @ [opt])"
  "ctx_check_private_key list_tls b = list_check b"
  by (simp_all add: list_tls_def)

lemma first_certificate_cases:
  "case first_certificate b of None \<Rightarrow> \<forall>c. Certificate c \<notin> set b | Some c \<Rightarrow> Certificate c \<in> set b"
  by (induction b) (auto split: tls_option.splits option.splits)

lemma first_key_cases:
  "case first_key b of None \<Rightarrow> \<forall>k. Private_Key k \<notin> set b | Some k \<Rightarrow> Private_Key k \<in> set b"
  by (induction b) (auto split: tls_option.splits option.splits)

lemma first_unique:
  "{c. Certificate c \<in> set b} = {c} \<Longrightarrow> first_certificate b = Some c"
  "{k. Private_Key k \<in> set b} = {k} \<Longrightarrow> first_key b = Some k"
  using first_certificate_cases[of b] first_key_cases[of b]
  by (auto split: option.splits)

interpretation list_tls: tls_library list_tls "\<lambda>x. x" "\<lambda>c. c" "\<lambda>b. b"
proof
  fix b :: "(nat, nat x509_field list) tls_option list" and c k
  assume "{c. Certificate c \<in> set b} = {c}" "{k. Private_Key k \<in> set b} = {k}"
  then show "ctx_check_private_key list_tls b = Inr () \<longleftrightarrow> Public_Key k \<in> set c"
    by (simp add: list_check_def first_unique)
qed simp_all

section \<open>Properties\<close>

text \<open>The protocol list of TLS: each name behind its length in one byte.\<close>

fun parse_alpn :: "bytes \<Rightarrow> bytes list option" where
  "parse_alpn [] = Some []"
| "parse_alpn (n # bs) =
     (if unat n = 0 \<or> length bs < unat n then None
      else map_option ((#) (take (unat n) bs)) (parse_alpn (drop (unat n) bs)))"

lemma default_protocols_alpn:
  "parse_alpn (0x11 # alpn_of ''quic-echo-example'')
     = map_option (map alpn_of) (application_protos default_quiche_config)"
proof -
  have "length (alpn_of ''quic-echo-example'') = unat (0x11 :: byte)" by (simp add: alpn_of_def)
  then show ?thesis by (simp add: default_quiche_config_def)
qed

lemma set_all_ok: "\<forall>f x. \<exists>x'. setter f x = Inr x' \<Longrightarrow> \<exists>x'. set_all setter fs x = Inr x'"
  by (induction fs arbitrary: x) (simp_all, metis and_then.simps(2))

context tls_library
begin

lemma context_options:
  assumes "new_tls_context_builder lib = Inr b"
  shows "\<exists>c k. mk_ca_cert lib = Inr (c, k) \<and> options b = [Min_Proto TLS1_3, Max_Proto TLS1_3, Certificate c,
    Private_Key k, Verify_None, Alpn_Protos (0x11 # alpn_of ''quic-echo-example'')]"
proof -
  from assms obtain b0 b1 c k b2 where calls: "ctx_new lib = Inr b0"
    "set_all (ctx_set lib) [Min_Proto TLS1_3, Max_Proto TLS1_3] b0 = Inr b1" "mk_ca_cert lib = Inr (c, k)"
    "set_all (ctx_set lib) [Certificate c, Private_Key k] b1 = Inr b2"
    "set_all (ctx_set lib) [Verify_None, Alpn_Protos (0x11 # alpn_of ''quic-echo-example'')] b2 = Inr b"
    unfolding new_tls_context_builder_def and_then_Inr_iff case_prod_beta by (metis prod.collapse)
  then show ?thesis
    using fresh[OF calls(1)] set_all_options[OF calls(2)] set_all_options[OF calls(4)]
      set_all_options[OF calls(5)] by simp
qed

lemma context_built:
  assumes "mk_ca_cert lib = Inr (c, k)" and "ctx_new lib = Inr b0"
    and "\<forall>opt b. \<exists>b'. ctx_set lib opt b = Inr b'"
  shows "\<exists>b. new_tls_context_builder lib = Inr b"
proof -
  obtain b1 where b1: "set_all (ctx_set lib) [Min_Proto TLS1_3, Max_Proto TLS1_3] b0 = Inr b1"
    using set_all_ok[OF assms(3)] by blast
  obtain b2 where b2: "set_all (ctx_set lib) [Certificate c, Private_Key k] b1 = Inr b2"
    using set_all_ok[OF assms(3)] by blast
  obtain b3 where b3: "set_all (ctx_set lib)
      [Verify_None, Alpn_Protos (0x11 # alpn_of ''quic-echo-example'')] b2 = Inr b3"
    using set_all_ok[OF assms(3)] by blast
  have "options b2 = [Min_Proto TLS1_3, Max_Proto TLS1_3, Certificate c, Private_Key k]"
    using fresh[OF assms(2)] set_all_options[OF b1] set_all_options[OF b2] by simp
  moreover have "Public_Key k \<in> set (cert_fields c)" using mk_ca_cert_fields[OF assms(1)] by auto
  moreover have "{c'. Certificate c' \<in> set (options b2)} = {c}" "{k'. Private_Key k' \<in> set (options b2)} = {k}"
    using calculation(1) by auto
  ultimately have "ctx_check_private_key lib b2 = Inr ()" using key_checked by blast
  then show ?thesis unfolding new_tls_context_builder_def using assms(1,2) b1 b2 b3 by simp
qed

end

text \<open>C31: The TLS context.  Whenever the context of an endpoint is built, its certificate names the
  same subject and issuer, is not a CA, may be used for signatures by a TLS server, is valid for a
  year, and carries and is signed with the very key installed beside it; the context accepts
  TLS 1.3 only and verifies no peer; and the protocols it announces are, on the wire, exactly
  those of the default configuration.  The check of the private key is never what fails: if
  every other call succeeds, the context is built.\<close>

theorem tls_context:
  assumes "tls_library lib fields_of cert_fields options"
  shows "(new_tls_context_builder lib = Inr b \<longrightarrow> (\<exists>c k serial.
        options b = [Min_Proto TLS1_3, Max_Proto TLS1_3, Certificate c, Private_Key k, Verify_None,
          Alpn_Protos (0x11 # alpn_of ''quic-echo-example'')]
      \<and> cert_fields c = [Version 2, Serial_Number serial, Subject_Name ca_name, Issuer_Name ca_name,
          Public_Key k, Not_Before 0, Not_After 365, Extension (Basic_Constraints True False),
          Extension (Key_Usage True [Digital_Signature, Key_Encipherment]), Extension Server_Auth,
          Extension Subject_Key_Id, Signature k]))
    \<and> parse_alpn (0x11 # alpn_of ''quic-echo-example'')
        = map_option (map alpn_of) (application_protos default_quiche_config)
    \<and> (mk_ca_cert lib = Inr (c, k) \<and> ctx_new lib = Inr b0 \<and> (\<forall>opt b. \<exists>b'. ctx_set lib opt b = Inr b')
        \<longrightarrow> (\<exists>b. new_tls_context_builder lib = Inr b))"
  using tls_library.context_options[OF assms] tls_library.mk_ca_cert_fields[OF assms]
    tls_library.context_built[OF assms] default_protocols_alpn by blast

theorem tls_context_witness:
  "\<exists>b c. new_tls_context_builder list_tls = Inr b \<and> Certificate c \<in> set b \<and> Public_Key 7 \<in> set c"
proof -
  obtain c k where cert: "mk_ca_cert list_tls = Inr (c, k)" by (simp add: mk_ca_cert_def)
  then have "k = 7" by (simp add: mk_ca_cert_def)
  have "\<forall>opt b. \<exists>b'. ctx_set list_tls opt b = Inr b'" by simp
  then obtain b where b: "new_tls_context_builder list_tls = Inr b"
    using tls_context[OF list_tls.tls_library_axioms, of "[]" c k "[]"] cert by auto
  show ?thesis
    using tls_context[OF list_tls.tls_library_axioms, of b c k "[]"] b cert \<open>k = 7\<close>
    by (auto simp: mk_ca_cert_def new_tls_context_builder_def list_check_def)
qed

end
