(* ===== verification/Display.thy ===== *)
theory Display
  imports Packets Simple_Buf Net_Utils
begin

text \<open>
  What the log lines show: the \<open>Display\<close> implementations of \<open>packets.rs\<close>, \<open>simple_buf.rs\<close> and
  \<open>utils.rs\<close>, with the derived \<open>Debug\<close> names of the enumerations.  A line identifies exactly the
  header fields it names, and formatting a buffer cannot panic under its invariant.
\<close>

section \<open>Numbers\<close>

definition digit :: "nat \<Rightarrow> char" where
  "digit d = char_of (48 + d)"

fun show_nat :: "nat \<Rightarrow> string" where
  "show_nat n = (if n < 10 then [digit n] else show_nat (n div 10) @ [digit (n mod 10)])"

declare show_nat.simps [simp del]

definition read_nat :: "string \<Rightarrow> nat" where
  "read_nat cs = foldl (\<lambda>n c. 10 * n + (of_char c - 48)) 0 cs"

lemma digit_value: "d < 10 \<Longrightarrow> of_char (digit d) = 48 + d"
  by (simp add: digit_def)

lemma read_show_nat [simp]: "read_nat (show_nat n) = n"
proof (induction n rule: show_nat.induct)
  case (1 n)
  show ?case
  proof (cases "n < 10")
    case True
    then show ?thesis by (simp add: show_nat.simps[of n] read_nat_def digit_value)
  next
    case False
    have "read_nat (show_nat (n div 10) @ [digit (n mod 10)]) = 10 * read_nat (show_nat (n div 10)) + n mod 10"
      by (simp add: read_nat_def digit_value)
    then show ?thesis using 1[OF False] False by (simp add: show_nat.simps[of n])
  qed
qed

lemma show_nat_inj: "show_nat m = show_nat n \<longleftrightarrow> m = n"
  by (metis read_show_nat)

lemma digit_not_blank: "d < 10 \<Longrightarrow> digit d \<noteq> CHR '' ''"
proof
  assume "d < 10" "digit d = CHR '' ''"
  then have "48 + d = (of_char (CHR '' '') :: nat)" by (metis digit_value)
  then show False by simp
qed

lemma show_nat_no_blank: "CHR '' '' \<notin> set (show_nat n)"
proof (induction n rule: show_nat.induct)
  case (1 n)
  have "CHR '' '' \<noteq> digit n" if "n < 10" using digit_not_blank[OF that] by metis
  moreover have "CHR '' '' \<noteq> digit (n mod 10)" using digit_not_blank[of "n mod 10"] by fastforce
  ultimately show ?case using 1 by (simp add: show_nat.simps[of n])
qed

section \<open>Names of the variants\<close>

fun show_command :: "command \<Rightarrow> string" where
  "show_command Auth = ''Auth''"
| "show_command Heartbeat = ''Heartbeat''"
| "show_command Close = ''Close''"
| "show_command Reconnect = ''Reconnect''"
| "show_command CmdSubAllType = ''CmdSubAllType''"
| "show_command CmdUnSubAllType = ''CmdUnSubAllType''"
| "show_command CmdSubOrderBook = ''CmdSubOrderBook''"
| "show_command CmdUnSubOrderBook = ''CmdUnSubOrderBook''"
| "show_command CmdSubTrades = ''CmdSubTrades''"
| "show_command CmdSubBrokers = ''CmdSubBrokers''"
| "show_command CmdSubDepth = ''CmdSubDepth''"
| "show_command CmdUnSubDepth = ''CmdUnSubDepth''"
| "show_command CmdSubMarketInfo = ''CmdSubMarketInfo''"
| "show_command CmdUnSubBrokers = ''CmdUnSubBrokers''"

fun show_msg_type :: "msg_type \<Rightarrow> string" where
  "show_msg_type Msg_Unknown = ''Unknown''"
| "show_msg_type Msg_Snapshot = ''Snapshot''"
| "show_msg_type Msg_Trade = ''Trade''"
| "show_msg_type Msg_Depths = ''Depths''"
| "show_msg_type Msg_Brokers = ''Brokers''"
| "show_msg_type Msg_MarketInfo = ''MarketInfo''"
| "show_msg_type Msg_OrderBook = ''OrderBook''"
| "show_msg_type Msg_Kline = ''Kline''"

fun show_status :: "response_status \<Rightarrow> string" where
  "show_status Success = ''Success''"
| "show_status ServerTimeout = ''ServerTimeout''"
| "show_status ClientTimeout = ''ClientTimeout''"
| "show_status BadRequest = ''BadRequest''"
| "show_status BadResponse = ''BadResponse''"
| "show_status Unauthenticated = ''Unauthenticated''"
| "show_status PermissionDenied = ''PermissionDenied''"
| "show_status ServerInternalError = ''ServerInternalError''"
| "show_status ClientInternalError = ''ClientInternalError''"

section \<open>The lines\<close>

definition show_u32 :: "u32 \<Rightarrow> string" where
  "show_u32 w = show_nat (unat w)"

fun show_packet :: "packet \<Rightarrow> string" where
  "show_packet (Request r) = ''Packet(Request{ cmd:'' @ show_command (rq_command r)
     @ '' body_len:'' @ show_u32 (rq_body_len r) @ '' body:[..] })''"
| "show_packet (Response r) = ''Packet(Response{ cmd:'' @ show_command (rs_command r)
     @ '' status:'' @ show_status (rs_status r)
     @ '' body_len:'' @ show_u32 (rs_body_len r) @ '' body:[..] })''"
| "show_packet (Push p) = ''Packet(Push{ cmd:'' @ show_command (ps_command p)
     @ '' msg_type:'' @ show_msg_type (ps_msg_type p)
     @ '' body_len:'' @ show_u32 (ps_body_len p) @ '' body:[..] })''"

definition show_request :: "request \<Rightarrow> string" where
  "show_request r = ''Request{ cmd:'' @ show_command (rq_command r) @ '' id:'' @ show_u32 (rq_id r)
     @ '' body_len:'' @ show_u32 (rq_body_len r) @ '' body:[..] }''"

definition show_response :: "response \<Rightarrow> string" where
  "show_response r = ''Response{ cmd:'' @ show_command (rs_command r) @ '' id:'' @ show_u32 (rs_id r)
     @ '' status:'' @ show_status (rs_status r)
     @ '' body_len:'' @ show_u32 (rs_body_len r) @ '' body: [..]}''"

definition show_simple_buf :: "simple_buf \<Rightarrow> (buf_error, string) res" where
  "show_simple_buf b =
     and_then (usize_sub (vacant_idx b) (occupied_idx b)) (\<lambda>n.
       Inr (''SimpleBuf([0..'' @ show_nat (occupied_idx b) @ ''..'' @ show_nat (vacant_idx b) @ ''..''
            @ show_nat (capacity b) @ ''] = '' @ show_nat n @ '')''))"

text \<open>How a socket address prints is the standard library's; it is an argument.\<close>

definition show_peer_addr :: "(socket_addr \<Rightarrow> string) \<Rightarrow> peer_addr \<Rightarrow> string" where
  "show_peer_addr show_socket p = pa_raw_addr p @ '' -> DNS -> '' @ show_socket (pa_socket_addr p)"

section \<open>What a line identifies\<close>

lemma show_names:
  "show_command c = show_command c' \<longleftrightarrow> c = c'" "CHR '' '' \<notin> set (show_command c)"
  "show_status s = show_status s' \<longleftrightarrow> s = s'" "CHR '' '' \<notin> set (show_status s)"
  "show_msg_type t = show_msg_type t' \<longleftrightarrow> t = t'" "CHR '' '' \<notin> set (show_msg_type t)"
proof -
  show "show_command c = show_command c' \<longleftrightarrow> c = c'" by (cases c; cases c'; simp)
  show "CHR '' '' \<notin> set (show_command c)" by (cases c; simp)
  show "show_status s = show_status s' \<longleftrightarrow> s = s'" by (cases s; cases s'; simp)
  show "CHR '' '' \<notin> set (show_status s)" by (cases s; simp)
  show "show_msg_type t = show_msg_type t' \<longleftrightarrow> t = t'" by (cases t; cases t'; simp)
  show "CHR '' '' \<notin> set (show_msg_type t)" by (cases t; simp)
qed

lemma split_at_blank:
  "CHR '' '' \<notin> set xs \<Longrightarrow> CHR '' '' \<notin> set ys \<Longrightarrow>
    xs @ CHR '' '' # as = ys @ CHR '' '' # bs \<longleftrightarrow> xs = ys \<and> as = bs"
proof (induction xs arbitrary: ys)
  case Nil
  then show ?case by (cases ys) auto
next
  case (Cons x xs)
  then show ?case by (cases ys) auto
qed

lemma show_u32_names: "show_u32 v = show_u32 w \<longleftrightarrow> v = w" "CHR '' '' \<notin> set (show_u32 w)"
  by (simp_all add: show_u32_def show_nat_inj show_nat_no_blank word_unat_eq_iff)

text \<open>
  Two requests print alike exactly if they agree in command, id and length of the body; and
  likewise for responses, with the status.
\<close>

lemma show_request_eq:
  "show_request q = show_request r \<longleftrightarrow>
     rq_command q = rq_command r \<and> rq_id q = rq_id r \<and> rq_body_len q = rq_body_len r"
  by (simp add: show_request_def split_at_blank show_names show_u32_names)

lemma show_response_eq:
  "show_response q = show_response r \<longleftrightarrow> rs_command q = rs_command r \<and> rs_id q = rs_id r
     \<and> rs_status q = rs_status r \<and> rs_body_len q = rs_body_len r"
  by (simp add: show_response_def split_at_blank show_names show_u32_names)

lemma show_packet_eq:
  "show_packet (Request q) = show_packet (Request r)
     \<longleftrightarrow> rq_command q = rq_command r \<and> rq_body_len q = rq_body_len r"
  "show_packet (Response x) = show_packet (Response y)
     \<longleftrightarrow> rs_command x = rs_command y \<and> rs_status x = rs_status y \<and> rs_body_len x = rs_body_len y"
  "show_packet (Push p) = show_packet (Push p')
     \<longleftrightarrow> ps_command p = ps_command p' \<and> ps_msg_type p = ps_msg_type p' \<and> ps_body_len p = ps_body_len p'"
  by (simp_all add: split_at_blank show_names show_u32_names)

lemma show_simple_buf_total: "sb_inv b \<Longrightarrow> \<exists>line. show_simple_buf b = Inr line"
  by (simp add: show_simple_buf_def sb_inv_def)

end
