(* ===== verification/Spec2Isabelle.thy ===== *)
theory Spec2Isabelle
  imports Server_Pressure Request_Exchange Startup Link_Equivalence Metrics_Theorems Metrics_Server
    Tls_Utils Display
begin

text \<open>
  A verification development for \<open>quote-link-rs\<close>: a client and a server that exchange packets
  (requests, responses and pushed market data) over one bidirectional QUIC stream, and a small
  crate of metrics.  The Rust code is translated definition by definition into executable HOL
  functions; the theorems say what the parts promise, alone and together.

  The parts and how they interact.  Under \<open>link/src\<close>, \<open>client.rs\<close> keeps one connection to a
  server alive: it authenticates, subscribes, sends heartbeats, and hands replies to callers.
  \<open>server.rs\<close> accepts connections, authenticates clients and broadcasts packets to them.  Both
  sit on \<open>transport/\<close>, which makes a connection out of tasks joined by channels: a UDP read loop,
  the QUIC process loop, the link read and write loops, a UDP write loop.  \<open>packets.rs\<close> is the
  wire format, \<open>simple_buf.rs\<close> the buffer in which the stream is cut back into packets.

  Theories, by component (source files under \<open>src/\<close>):

  \<^item> \<open>Link_Prelude\<close>: machine types, panics and errors as values, checked arithmetic, slices, the
    outcome of a turn of an event loop, channel senders.
  \<^item> \<open>Simple_Buf\<close> (\<open>link/src/simple_buf.rs\<close>): the buffer as a record, its methods, its invariant
    \<open>sb_inv\<close> and abstraction \<open>sb_bytes\<close>, and that it is a queue of bytes.
  \<^item> \<open>Packets\<close>, \<open>Wire\<close>, \<open>Wire_Laws\<close> (\<open>packets.rs\<close>, \<open>protos/control.proto\<close>): packets, constructors
    and the bit layout; the locale \<open>deku_io\<close> is the contract of the bit-field library, interpreted
    on most-significant-bit-first fields; round trip and canonicity of the encoding.
  \<^item> \<open>Messages\<close> (\<open>packet_utils.rs\<close>, \<open>packets.rs\<close>): typed payloads and quotations.
  \<^item> \<open>Link_Loops\<close>, \<open>Link_Laws\<close>, \<open>Link_Theorems\<close>, \<open>Link_Equivalence\<close> (\<open>transport/link.rs\<close>): the read
    and write loops; what the reader delivers of a stream in any chunks, on hostile input, and
    that it is equivalent to parsing the whole input at once.
  \<^item> \<open>Quic_Process\<close>, \<open>Quic_Laws\<close>, \<open>Quic_Theorems\<close> (\<open>transport/link.rs\<close>): the process loop; the
    locale \<open>quic_conn\<close> is the contract of a QUIC connection, interpreted on a connection with a
    flow-control window; termination, absence of panics, and order of the messages.
  \<^item> \<open>Link_Config\<close> (\<open>config.rs\<close>): configuration, defaults, and the options given to quiche.
  \<^item> \<open>Event_Loops\<close>: the locales \<open>watchdog\<close> (a timer that only received packets push back) and
    \<open>registry\<close> (the contract of a hash map), shared by client and server.
  \<^item> \<open>Link_Client\<close>, \<open>Client_Theorems\<close> (\<open>client.rs\<close>): callers, main task and dispatch task as turns
    on a shared state, run in any interleaving; correlation of replies, timeouts, retries.
  \<^item> \<open>Link_Server\<close>, \<open>Server_Theorems\<close>, \<open>Server_System\<close> (\<open>server.rs\<close>): the management task, the main
    and callback loops of a connection; \<open>Server_System\<close> runs them together as a step relation
    with an invariant on names and identities over the reachable states, and shows that connections
    go on after \<open>shutdown\<close>.
  \<^item> \<open>Broadcast\<close>: the locale \<open>lossy_receiver\<close>, the contract of a broadcast channel whose receivers may
    lag behind, interpreted on a ring of any size; \<open>Server_Callbacks\<close> (\<open>server.rs\<close>): the main
    loop of a connection, its callback loop and the tasks these spawn, as a step relation; an
    invariant accounts for every packet of the peer and every broadcast.
  \<^item> \<open>Net_Utils\<close> (\<open>utils.rs\<close>, \<open>transport/server.rs\<close>): addresses, connection ids, the retry token.
  \<^item> \<open>Transport\<close>, \<open>Transport_Theorems\<close> (\<open>transport/client.rs\<close>, \<open>transport/server.rs\<close>,
    \<open>transport/transport.rs\<close>): handshakes, UDP loops, the listener and its routes; the locales
    \<open>datagram_socket\<close> and \<open>shared_socket\<close>, the second giving the first for each peer.
  \<^item> \<open>Connection\<close> (\<open>transport/transport.rs\<close>, \<open>transport/server.rs\<close>): how the tasks of a connection
    are wired, and a packet's way through the loops of both ends.
  \<^item> \<open>Back_Pressure\<close>, \<open>Server_Pressure\<close> (\<open>transport/transport.rs\<close>, \<open>client.rs\<close>, \<open>server.rs\<close>): who waits for
    whom.  The loops of a connection, with the client's main task and \<open>connect\<close>, or with the
    server's main and callback loops, are control states joined by bounded channels; the
    deadlocks of either side are characterised and reached.
  \<^item> \<open>Exchange\<close>: client and server as peers: authentication and heartbeats.
  \<^item> \<open>Example_Server\<close>, \<open>Example_Clients\<close> (\<open>link/examples\<close>): a handler, three consumers and the tasks that
    read what they pass on; \<open>Request_Exchange\<close> takes a request and a login from a caller
    through client, server and handler and back.
  \<^item> \<open>Tls_Utils\<close> (\<open>tls_utils.rs\<close>): the certificate and the TLS context over the locale
    \<open>tls_library\<close>; \<open>Display\<close>: the texts that \<open>Display\<close> writes.
  \<^item> \<open>Startup\<close>: the beginnings of \<open>Client::link\<close> and \<open>Server::serve_linker\<close>.
  \<^item> \<open>Metrics\<close>, \<open>Metrics_Theorems\<close> (\<open>metrics/src\<close>): recording functions, registration, the state
    clock; the locale \<open>counter_store\<close> is the contract of the library's counters.  \<open>Metrics_Server\<close>
    (\<open>metrics/src/lib.rs\<close>): start and routes of its HTTP server, over the locale \<open>http_router\<close>.

  How the code is modelled.  A struct, or the local variables of a loop, is a record; one turn of a
  \<open>select!\<close> loop is a function of an event and that record, and a run is a list of events.  What
  a task sends on a channel is appended to the record, so that order and loss are visible.  A
  panic is the value \<open>Panic\<close>, an error return is \<open>Err\<close>; slices, additions and subtractions that
  can fail are checked.  \<open>usize\<close> is a natural number below \<open>2 ^ 64\<close>, other integers are words.
  Times are natural numbers of nanoseconds, read from the events.

  Loops that a callee can keep running are \<open>partial_function (option)\<close>: the value \<open>None\<close> is
  not returning, and that they return is proved from the contracts of the callees
  (\<open>quic_process_loop_fifo\<close>, \<open>accept_loop_total\<close>).  The parser terminates by a measure.  No
  bound or fuel is assumed anywhere; finite runs of events stand for the loops that never end.

  Code that is not in the repository is a parameter with a stated contract: the bit fields of
  deku, the QUIC connections of quiche, the protobuf codecs of prost, sockets, the resolver, the
  HMAC, the metrics library, the TLS library, the HTTP router.  Each contract has an instance on which the theorems are applied.

  Channels.  Their capacity is modelled where the code looks at it (\<open>try_send\<close>) and in
  \<open>Back_Pressure\<close> and \<open>Server_Pressure\<close>, where a task waits for room; in the other theories an awaited send is its effect at
  the moment it completes.

  Not modelled: logging and the metric calls within the loops; the text of error messages; reading the
  configuration file, which is serde's work; the \<open>main\<close> functions of the examples, which only start
  things and log how they end; \<open>communicate.rs\<close> and \<open>metrics/examples/main.rs\<close>, which show the async
  runtime and one HTTP request and use nothing of the library; the tests.
\<close>

section \<open>Properties that span components\<close>

text \<open>C1: End to end.  Take two ends of a connection, each spawned by \<open>connect\<close> or by
  \<open>accept_new_conn\<close> with its own buffer configuration.  A list of packets goes through the write
  loop of one; the process loop sends its messages over any connection that keeps the contract,
  among any other events; at any moment, any part of the stream that has arrived is cut into any
  chunks and read by the read loop of the other.  However that loop ends, the packets it has
  delivered are a subsequence of the packets sent: each is intact, in order, and not duplicated.
  And each fits the send buffer of the one and the read buffer of the other; a larger packet,
  which the wire format allows, is never delivered.\<close>

theorem end_to_end:
  assumes "deku_io rd wr" and "quic_conn q accepted emitted taken backlog unread"
    and "fresh_end sender c A" and "fresh_end receiver c' B" and "accepted c = []"
    and "max_stream_send_size sender < usize_bound" and "max_stream_read_size receiver < usize_bound"
    and "\<forall>p \<in> set ps. wf_packet p"
    and "link_write_loop wr (map Some ps) (ct_writer A) = Continue out"
    and "prefix (sent_data evs) (ch_sent out)"
    and "quic_process_loop q evs (ct_quic A) = Some (Continue s)"
    and "prefix (concat bs) (accepted (conn s))"
  shows "\<exists>qs. ch_sent (response_tx (ctl_state (link_read_loop rd (map Some bs) (ct_reader B)))) = qs
    \<and> subseq qs ps
    \<and> (\<forall>p \<in> set qs. total_bytes p \<le> min (max_stream_send_size sender) (max_stream_read_size receiver))"
proof -
  obtain rtx utx udp_size read_size where
    a: "ct_quic A = quic_init c rtx utx udp_size read_size (max_stream_send_size sender)"
      "chan_live (ct_writer A)" "ch_sent (ct_writer A) = []"
    using assms(3) by (rule fresh_endE) blast
  obtain tx where
    b: "ct_reader B = link_read_init (max_stream_read_size receiver) tx" "chan_live tx" "ch_sent tx = []"
    using assms(4) by (rule fresh_endE) blast
  show ?thesis
    using pipeline_delivers[OF assms(1,2,8) a(2,3) assms(9,10,5,6) _ assms(12,7) b(2)] assms(11) a(1) b
    by auto
qed

definition relay_config :: buffer_config where
  "relay_config = default_buffer_config\<lparr>max_udp_read_size := 9, max_udp_write_size := 9,
     max_stream_read_size := 64, max_stream_send_size := 12\<rparr>"

definition relay_end :: "window_conn conn_tasks" where
  "relay_end = accept_tasks relay_config wc_new live_chan live_chan live_chan live_chan"

definition relay_start :: "window_conn quic_state" where
  "relay_start = ct_quic relay_end"

lemma relay_end_fresh: "fresh_end relay_config wc_new relay_end"
  unfolding fresh_end_def relay_end_def
  by (rule exI[of _ live_chan] exI[of _ live_chan] conjI disjI1 refl live_chan_simps)+

definition relay_events :: "quic_event list" where
  "relay_events = [Send_Data (take 11 test_bytes), Udp_Data [0], Tick, Udp_Data [0], Tick]"

lemma relay_start_eq:
  "relay_start = \<lparr>conn = \<lparr>wc_accepted = [], wc_emitted = [], wc_taken = [], wc_outbox = [],
       wc_inbox = [], wc_window = 4\<rparr>,
     stream_send_buffer = \<lparr>data_vec = [0, 0, 0, 0, 0, 0, 0, 0, 0, 0, 0, 0], capacity = 12,
       vacant_idx = 0, occupied_idx = 0\<rparr>,
     quic_data_recv_tx = live_chan, udp_data_send_tx = live_chan, udp_data_buffer_size = 9,
     stream_recv_buffer_size = 64, sleeping_timers = []\<rparr>"
  by (simp add: relay_start_def relay_end_def accept_tasks_def relay_config_def quic_init_def
      wc_new_def window_size_def sb_new_def eval_nat_numeral)

lemma relay_run:
  "\<exists>s. quic_process_loop window_quiche relay_events relay_start = Some (Continue s)
     \<and> wc_accepted (conn s) = take 11 test_bytes"
  by (simp add: relay_start_eq relay_events_def test_bytes_def quic_eval window_quiche_def
      on_tick_def)

lemma test_write_loop:
  "link_write_loop wr_msb (map Some [test_packet]) live_chan
     = Continue (live_chan\<lparr>ch_sent := [take 11 test_bytes]\<rparr>)"
proof -
  have "packet_to_bytes wr_msb test_packet = Inr (take 11 test_bytes)" by code_simp
  then show ?thesis by (simp add: link_write_loop_def flow_simps)
qed

lemma test_read_loop:
  "ch_sent (response_tx (ctl_state (link_read_loop rd_msb (map Some test_chunks)
     (ct_reader relay_end)))) = [test_packet]"
proof -
  have "chunks_fit 64 [test_packet] 0 test_chunks" by code_simp
  moreover have "deku_io.framed wr_msb [test_packet] (concat test_chunks @ []) (link_read_init 64 live_chan)"
    using msb.framed_init[of 64 "[test_packet]" live_chan] test_packet_wf
      msb.packets_to_bytes_wires[of "[test_packet]"] test_chunks_stream by simp
  moreover have "received (length (concat test_chunks)) [test_packet] = [test_packet]" by code_simp
  ultimately show ?thesis
    using msb.link_read_loop_fits[of "[test_packet]" test_chunks "[]" "link_read_init 64 live_chan"]
    by (auto simp: link_read_init_def relay_end_def accept_tasks_def relay_config_def live_chan_def)
qed

theorem end_to_end_witness:
  "\<exists>s. quic_process_loop window_quiche relay_events relay_start = Some (Continue s)
    \<and> ch_sent (response_tx (ctl_state (link_read_loop rd_msb (map Some test_chunks)
        (ct_reader relay_end)))) = [test_packet]
    \<and> total_bytes test_packet \<le> 12"
proof -
  obtain s where s: "quic_process_loop window_quiche relay_events (ct_quic relay_end) = Some (Continue s)"
    "wc_accepted (conn s) = take 11 test_bytes"
    using relay_run by (auto simp: relay_start_def)
  have sent: "link_write_loop wr_msb (map Some [test_packet]) (ct_writer relay_end)
      = Continue (live_chan\<lparr>ch_sent := [take 11 test_bytes]\<rparr>)"
    using test_write_loop by (simp add: relay_end_def accept_tasks_def)
  have chunks: "prefix (concat test_chunks) (wc_accepted (conn s))"
    using s(2) by (simp add: test_chunks_def test_bytes_def)
  have "total_bytes test_packet \<le> 12"
    using end_to_end[OF msb.deku_io_axioms window.quic_conn_axioms relay_end_fresh relay_end_fresh
        _ _ _ _ sent _ s(1) chunks] test_packet_wf test_read_loop
    by (simp add: wc_new_def relay_events_def relay_config_def)
  with s test_read_loop show ?thesis by (auto simp: relay_start_def)
qed

text \<open>
  The end of the connection task as the data loop of the client sees it: a task that was
  cancelled or panicked is an error like one that returned one.
\<close>

fun conn_task_event :: "connect_end \<Rightarrow> data_event" where
  "conn_task_event Connect_Ok = Conn_Task_Ok"
| "conn_task_event Connect_Err = Conn_Task_Err"

text \<open>C25: A transport whose tasks end with errors ends the client without a word.  Unless a task
  panics or is cancelled, whatever errors the five tasks of a connection return, the client takes
  its connection for completed: it does not connect again, however many retries are left, calls
  no connection event of the consumer, and its own task returns Ok.\<close>

theorem transport_errors_end_client:
  assumes "Join_Failed \<notin> set ends" and "se_cid_ok se" and "data_loop conf pb se s = Continue t"
  shows "link_task conf pb
      (se\<lparr>se_events := se_events se @ [Main (conn_task_event (join_tasks ends))]\<rparr> # ses) r s
        = (Link_Ok, r, t)
    \<and> conn_log t = conn_log s"
  using assms data_loop_conn_log[of conf pb se s t]
  by (auto simp: data_loop_def join_tasks_def run_loop_append start_connection_def)

theorem transport_errors_end_client_witness:
  "\<exists>t. link_task test_conf plain_prost
      [next_session\<lparr>se_events := se_events next_session
         @ [Main (conn_task_event (join_tasks [Returned_Err, Returned_Err, Returned_Ok]))]\<rparr>]
      0 (client_new live_chan) = (Link_Ok, 0, t)
    \<and> conn_log t = conn_log (client_new live_chan :: nat client_state)"
proof -
  obtain t where t: "data_loop test_conf plain_prost next_session (client_new live_chan) = Continue t"
    by (simp add: data_loop_def start_connection_def next_session_def client_eval Let_def)
  show ?thesis
    using transport_errors_end_client[OF _ _ t, of "[Returned_Err, Returned_Err, Returned_Ok]"]
    by (simp add: next_session_def)
qed

end
